theory Spec2Isabelle
  imports Main "HOL-Library.Word"
begin

section \<open>Byte strings, slices and fixed-width little-endian fields\<close>

text \<open>
  A Python \<open>bytes\<close> object is a list of 8-bit values; indexing it gives an integer in
  0..255, read here with \<open>unat\<close>. Python integers are unbounded; every integer of the
  parser is non-negative, so they are natural numbers.
\<close>

type_synonym byte = "8 word"

text \<open>
  The parser has no exception of its own. What it can raise is \<open>IndexError\<close>
  (\<open>data[offset]\<close> with \<open>offset\<close> at or beyond the end) and \<open>struct.error\<close>
  (\<open>struct.unpack\<close> on a slice that is shorter than the format demands) and
  \<open>ValueError\<close> (\<open>bytes.fromhex\<close> on text that is not hexadecimal).
\<close>

datatype error = IndexError | StructError | ValueError

text \<open>
  \<open>data[a:b]\<close> for \<open>0 \<le> a \<le> b\<close>: the elements at positions \<open>a \<le> i < min b (len data)\<close>.
  A slice never raises; it is silently cut at the end of the buffer.
\<close>

definition py_slice :: "'a list \<Rightarrow> nat \<Rightarrow> nat \<Rightarrow> 'a list" where
  "py_slice xs a b = take (b - a) (drop a xs)"

text \<open>The unsigned little-endian value of a byte string.\<close>

fun le_nat :: "byte list \<Rightarrow> nat" where
  "le_nat [] = 0"
| "le_nat (b # bs) = unat b + 256 * le_nat bs"

text \<open>
  \<open>struct.unpack('<H' | '<I' | '<Q', s)[0]\<close> with \<open>k = 2 | 4 | 8\<close>: the buffer must hold
  exactly \<open>k\<close> bytes, otherwise \<open>struct.error\<close> is raised.
\<close>

definition unpack :: "nat \<Rightarrow> byte list \<Rightarrow> error + nat" where
  "unpack k s = (if length s = k then Inr (le_nat s) else Inl StructError)"

section \<open>VarInt decoding: \<open>parse_varint\<close>\<close>

definition parse_varint :: "byte list \<Rightarrow> nat \<Rightarrow> error + (nat \<times> nat)" where
  "parse_varint data offset =
     (if length data \<le> offset then Inl IndexError
      else
        let first_byte = unat (data ! offset) in
        if first_byte < 0xfd then Inr (first_byte, offset + 1)
        else if first_byte = 0xfd then
          (case unpack 2 (py_slice data (offset + 1) (offset + 3)) of
             Inl e \<Rightarrow> Inl e
           | Inr v \<Rightarrow> Inr (v, offset + 3))
        else if first_byte = 0xfe then
          (case unpack 4 (py_slice data (offset + 1) (offset + 5)) of
             Inl e \<Rightarrow> Inl e
           | Inr v \<Rightarrow> Inr (v, offset + 5))
        else
          (case unpack 8 (py_slice data (offset + 1) (offset + 9)) of
             Inl e \<Rightarrow> Inl e
           | Inr v \<Rightarrow> Inr (v, offset + 9)))"

text \<open>
  The number of bytes a VarInt takes, prefix byte included, as its prefix byte announces
  it: the four branches of \<open>parse_varint\<close>.
\<close>

definition varint_width :: "byte \<Rightarrow> nat" where
  "varint_width first_byte =
     (if unat first_byte < 0xfd then 1
      else if unat first_byte = 0xfd then 3
      else if unat first_byte = 0xfe then 5
      else 9)"

section \<open>Hexadecimal text\<close>

text \<open>
  The parser reports byte strings with \<open>bytes.hex()\<close> and integers with the format
  specifications \<open>08x\<close>, \<open>016x\<close> and \<open>02x\<close>: lower-case digits, padded with zeros up to
  the width, never cut.
\<close>

definition hex_digit :: "nat \<Rightarrow> char" where
  "hex_digit d = ''0123456789abcdef'' ! d"

fun hex_of_nat :: "nat \<Rightarrow> string" where
  "hex_of_nat n =
     (if n < 16 then [hex_digit n] else hex_of_nat (n div 16) @ [hex_digit (n mod 16)])"

definition format_x :: "nat \<Rightarrow> nat \<Rightarrow> string" where
  "format_x width n = replicate (width - length (hex_of_nat n)) CHR ''0'' @ hex_of_nat n"

definition bytes_hex :: "byte list \<Rightarrow> string" where
  "bytes_hex bs = concat (map (\<lambda>b. format_x 2 (unat b)) bs)"

text \<open>
  \<open>bytes.fromhex\<close> (Python 3.7 and later): ASCII whitespace is skipped before each pair of
  digits, both cases of the letters are accepted, and anything else, a lone digit
  included, raises \<open>ValueError\<close>.
\<close>

definition is_space :: "char \<Rightarrow> bool" where
  "is_space c = ((of_char c :: nat) \<in> {9, 10, 11, 12, 13, 32})"

definition hex_value :: "char \<Rightarrow> nat option" where
  "hex_value c =
     (let k = (of_char c :: nat) in
      if 48 \<le> k \<and> k \<le> 57 then Some (k - 48)
      else if 97 \<le> k \<and> k \<le> 102 then Some (k - 87)
      else if 65 \<le> k \<and> k \<le> 70 then Some (k - 55)
      else None)"

fun bytes_fromhex :: "string \<Rightarrow> error + byte list" where
  "bytes_fromhex [] = Inr []"
| "bytes_fromhex [c] = (if is_space c then Inr [] else Inl ValueError)"
| "bytes_fromhex (c # d # cs) =
     (if is_space c then bytes_fromhex (d # cs)
      else
        (case (hex_value c, hex_value d) of
           (Some hi, Some lo) \<Rightarrow>
             (case bytes_fromhex cs of
                Inl e \<Rightarrow> Inl e
              | Inr bs \<Rightarrow> Inr (of_nat (16 * hi + lo) # bs))
         | _ \<Rightarrow> Inl ValueError))"

section \<open>Transaction parsing: \<open>parse_segwit_transaction\<close>\<close>

text \<open>
  The dictionaries the parser builds. A field is the key of the source with the prefix
  of its dictionary (\<open>in_\<close> for an input, \<open>out_\<close> for an output, \<open>wit_\<close> for a witness item,
  \<open>tx_\<close> for the result), which leaves the names of the source's local variables free
  for the functions below. The numbers are kept as the source keeps them: \<open>vout\<close>,
  \<open>value\<close> and the lengths as integers, \<open>version\<close>, \<open>sequence\<close>, \<open>locktime\<close>,
  \<open>marker\<close> and \<open>flag\<close> as formatted text.
\<close>

record parsed_input =
  in_txid :: string
  in_vout :: nat
  in_script_sig :: string
  in_script_sig_len :: nat
  in_sequence :: string

record parsed_output =
  out_value :: nat
  out_value_hex :: string
  out_script_len :: nat
  out_script_pubkey :: string

record witness_item =
  wit_len :: nat
  wit_data :: string

record parsed_tx =
  tx_version :: string
  tx_is_segwit :: bool
  tx_marker :: "string option"
  tx_flag :: "string option"
  tx_input_count :: nat
  tx_inputs :: "parsed_input list"
  tx_output_count :: nat
  tx_outputs :: "parsed_output list"
  tx_witnesses :: "witness_item list list"
  tx_locktime :: string
  tx_total_size :: nat

text \<open>
  Lines 44-54: the marker test. \<open>tx_bytes[offset]\<close> is guarded by the length test, the
  read of the flag one byte later is not, so it raises \<open>IndexError\<close> when the marker is the
  last byte. The flag is stored as it is read. Returns \<open>(is_segwit, marker, flag, offset)\<close>.
\<close>

definition parse_marker_flag ::
  "byte list \<Rightarrow> nat \<Rightarrow> error + (bool \<times> nat option \<times> nat option \<times> nat)" where
  "parse_marker_flag tx_bytes offset =
     (if offset < length tx_bytes \<and> unat (tx_bytes ! offset) = 0x00 then
        (let marker = unat (tx_bytes ! offset);
             offset1 = offset + 1
         in if length tx_bytes \<le> offset1 then Inl IndexError
            else
              (let flag = unat (tx_bytes ! offset1);
                   offset2 = offset1 + 1
               in Inr (True, Some marker, Some flag, offset2)))
      else Inr (False, None, None, offset))"

text \<open>
  Lines 59-87: the loop over the inputs, \<open>for i in range(input_count)\<close>. The first
  argument after the buffer is the number of iterations left; the list is the value of
  \<open>inputs\<close> so far. A \<open>break\<close> returns the list and the offset as they are.
\<close>

fun parse_inputs ::
  "byte list \<Rightarrow> nat \<Rightarrow> nat \<Rightarrow> parsed_input list \<Rightarrow> error + (parsed_input list \<times> nat)" where
  "parse_inputs tx_bytes 0 offset inputs = Inr (inputs, offset)"
| "parse_inputs tx_bytes (Suc k) offset inputs =
     (if offset + 32 > length tx_bytes then Inr (inputs, offset)
      else
        (let txid_bytes = py_slice tx_bytes offset (offset + 32);
             txid = bytes_hex (rev txid_bytes);
             offset1 = offset + 32
         in case unpack 4 (py_slice tx_bytes offset1 (offset1 + 4)) of
              Inl e \<Rightarrow> Inl e
            | Inr vout \<Rightarrow>
                (case parse_varint tx_bytes (offset1 + 4) of
                   Inl e \<Rightarrow> Inl e
                 | Inr (script_sig_len, offset2) \<Rightarrow>
                     (let script_sig =
                            (if script_sig_len > 0
                             then bytes_hex (py_slice tx_bytes offset2 (offset2 + script_sig_len))
                             else []);
                          offset3 = offset2 + script_sig_len
                      in case unpack 4 (py_slice tx_bytes offset3 (offset3 + 4)) of
                           Inl e \<Rightarrow> Inl e
                         | Inr sequence \<Rightarrow>
                             parse_inputs tx_bytes k (offset3 + 4)
                               (inputs @
                                [\<lparr>in_txid = txid, in_vout = vout, in_script_sig = script_sig,
                                  in_script_sig_len = script_sig_len,
                                  in_sequence = format_x 8 sequence\<rparr>])))))"

text \<open>
  Lines 92-115: the loop over the outputs. It has three \<open>break\<close>s; the second and the
  third leave the offset where the reads before them put it.
\<close>

fun parse_outputs ::
  "byte list \<Rightarrow> nat \<Rightarrow> nat \<Rightarrow> parsed_output list \<Rightarrow> error + (parsed_output list \<times> nat)" where
  "parse_outputs tx_bytes 0 offset outputs = Inr (outputs, offset)"
| "parse_outputs tx_bytes (Suc k) offset outputs =
     (if offset + 8 > length tx_bytes then Inr (outputs, offset)
      else
        (case unpack 8 (py_slice tx_bytes offset (offset + 8)) of
           Inl e \<Rightarrow> Inl e
         | Inr value \<Rightarrow>
             (let offset1 = offset + 8
              in if offset1 \<ge> length tx_bytes then Inr (outputs, offset1)
                 else
                   (case parse_varint tx_bytes offset1 of
                      Inl e \<Rightarrow> Inl e
                    | Inr (script_len, offset2) \<Rightarrow>
                        (if offset2 + script_len > length tx_bytes then Inr (outputs, offset2)
                         else
                           (let script_pubkey =
                                  bytes_hex (py_slice tx_bytes offset2 (offset2 + script_len))
                            in parse_outputs tx_bytes k (offset2 + script_len)
                                 (outputs @
                                  [\<lparr>out_value = value, out_value_hex = format_x 16 value,
                                    out_script_len = script_len,
                                    out_script_pubkey = script_pubkey\<rparr>])))))))"

text \<open>
  Lines 125-136: the loop over the items of one witness stack,
  \<open>for j in range(witness_item_count)\<close>.
\<close>

fun parse_witness_items ::
  "byte list \<Rightarrow> nat \<Rightarrow> nat \<Rightarrow> witness_item list \<Rightarrow> error + (witness_item list \<times> nat)" where
  "parse_witness_items tx_bytes 0 offset witness_items = Inr (witness_items, offset)"
| "parse_witness_items tx_bytes (Suc k) offset witness_items =
     (if offset \<ge> length tx_bytes then Inr (witness_items, offset)
      else
        (case parse_varint tx_bytes offset of
           Inl e \<Rightarrow> Inl e
         | Inr (item_len, offset1) \<Rightarrow>
             (if offset1 + item_len > length tx_bytes then Inr (witness_items, offset1)
              else
                (let item_data =
                       (if item_len > 0
                        then bytes_hex (py_slice tx_bytes offset1 (offset1 + item_len))
                        else [])
                 in parse_witness_items tx_bytes k (offset1 + item_len)
                      (witness_items @ [\<lparr>wit_len = item_len, wit_data = item_data\<rparr>])))))"

text \<open>
  Lines 120-137: the loop over the witness stacks, \<open>for i in range(input_count)\<close>. The
  stack is appended also when the inner loop stopped at a \<open>break\<close>.
\<close>

fun parse_witnesses ::
  "byte list \<Rightarrow> nat \<Rightarrow> nat \<Rightarrow> witness_item list list \<Rightarrow>
     error + (witness_item list list \<times> nat)" where
  "parse_witnesses tx_bytes 0 offset witnesses = Inr (witnesses, offset)"
| "parse_witnesses tx_bytes (Suc k) offset witnesses =
     (if offset \<ge> length tx_bytes then Inr (witnesses, offset)
      else
        (case parse_varint tx_bytes offset of
           Inl e \<Rightarrow> Inl e
         | Inr (witness_item_count, offset1) \<Rightarrow>
             (case parse_witness_items tx_bytes witness_item_count offset1 [] of
                Inl e \<Rightarrow> Inl e
              | Inr (witness_items, offset2) \<Rightarrow>
                  parse_witnesses tx_bytes k offset2 (witnesses @ [witness_items]))))"

text \<open>
  Lines 40-137: everything the parser reads before the locktime. The result is the tuple
  of the local variables \<open>version\<close>, \<open>is_segwit\<close>, \<open>marker\<close>, \<open>flag\<close>, \<open>input_count\<close>,
  \<open>inputs\<close>, \<open>output_count\<close>, \<open>outputs\<close>, \<open>witnesses\<close> and \<open>offset\<close> at line 139.
\<close>

definition parse_fields ::
  "byte list \<Rightarrow>
     error + (nat \<times> bool \<times> nat option \<times> nat option \<times> nat \<times> parsed_input list \<times> nat \<times>
              parsed_output list \<times> witness_item list list \<times> nat)" where
  "parse_fields tx_bytes =
     (case unpack 4 (py_slice tx_bytes 0 4) of
        Inl e \<Rightarrow> Inl e
      | Inr version \<Rightarrow>
          (case parse_marker_flag tx_bytes 4 of
             Inl e \<Rightarrow> Inl e
           | Inr (is_segwit, marker, flag, offset1) \<Rightarrow>
               (case parse_varint tx_bytes offset1 of
                  Inl e \<Rightarrow> Inl e
                | Inr (input_count, offset2) \<Rightarrow>
                    (case parse_inputs tx_bytes input_count offset2 [] of
                       Inl e \<Rightarrow> Inl e
                     | Inr (inputs, offset3) \<Rightarrow>
                         (case parse_varint tx_bytes offset3 of
                            Inl e \<Rightarrow> Inl e
                          | Inr (output_count, offset4) \<Rightarrow>
                              (case parse_outputs tx_bytes output_count offset4 [] of
                                 Inl e \<Rightarrow> Inl e
                               | Inr (outputs, offset5) \<Rightarrow>
                                   (case (if is_segwit \<and> offset5 < length tx_bytes
                                          then parse_witnesses tx_bytes input_count offset5 []
                                          else Inr ([], offset5)) of
                                      Inl e \<Rightarrow> Inl e
                                    | Inr (witnesses, offset6) \<Rightarrow>
                                        Inr (version, is_segwit, marker, flag, input_count,
                                             inputs, output_count, outputs, witnesses,
                                             offset6))))))))"

text \<open>
  Lines 139-157: the locktime, which starts at 0 and is read only when four bytes are
  left, and the dictionary that is returned. This is the function from its second line
  on, where \<open>tx_bytes\<close> is the decoded argument.
\<close>

definition parse_segwit_transaction_bytes :: "byte list \<Rightarrow> error + parsed_tx" where
  "parse_segwit_transaction_bytes tx_bytes =
     (case parse_fields tx_bytes of
        Inl e \<Rightarrow> Inl e
      | Inr (version, is_segwit, marker, flag, input_count, inputs, output_count, outputs,
             witnesses, offset) \<Rightarrow>
          (case (if offset + 4 \<le> length tx_bytes
                 then unpack 4 (py_slice tx_bytes offset (offset + 4))
                 else Inr 0) of
             Inl e \<Rightarrow> Inl e
           | Inr locktime \<Rightarrow>
               Inr \<lparr>tx_version = format_x 8 version,
                    tx_is_segwit = is_segwit,
                    tx_marker = map_option (format_x 2) marker,
                    tx_flag = map_option (format_x 2) flag,
                    tx_input_count = input_count,
                    tx_inputs = inputs,
                    tx_output_count = output_count,
                    tx_outputs = outputs,
                    tx_witnesses = witnesses,
                    tx_locktime = format_x 8 locktime,
                    tx_total_size = length tx_bytes\<rparr>))"

definition parse_segwit_transaction :: "string \<Rightarrow> error + parsed_tx" where
  "parse_segwit_transaction tx_hex =
     (case bytes_fromhex tx_hex of
        Inl e \<Rightarrow> Inl e
      | Inr tx_bytes \<Rightarrow> parse_segwit_transaction_bytes tx_bytes)"

section \<open>VarInt encoding\<close>

text \<open>
  Modelled from the spec: the encoder is not among the repository's sources (the scripts
  obtain serialized transactions from the \<open>bitcoinutils\<close> library). Spec 4.1:
  ``\<open>encode(n: u64) -> bytes\<close>: 1 byte if n<0xfd; 0xfd + 2-byte little-endian if
  n\<le>0xffff; 0xfe + 4-byte LE if n\<le>0xffffffff; else 0xff + 8-byte LE.''
\<close>

fun le_bytes :: "nat \<Rightarrow> nat \<Rightarrow> byte list" where
  "le_bytes 0 n = []"
| "le_bytes (Suc k) n = of_nat (n mod 256) # le_bytes k (n div 256)"

definition encode :: "nat \<Rightarrow> byte list" where
  "encode n =
     (if n < 0xfd then [of_nat n]
      else if n \<le> 0xffff then 0xfd # le_bytes 2 n
      else if n \<le> 0xffffffff then 0xfe # le_bytes 4 n
      else 0xff # le_bytes 8 n)"

section \<open>The transaction model and its serialization\<close>

text \<open>
  Modelled from the spec: the transaction type and its serializer are not among the
  repository's sources (the scripts take \<open>Transaction\<close>, \<open>TxInput\<close>, \<open>TxOutput\<close> and
  \<open>serialize\<close> from the \<open>bitcoinutils\<close> library). The records follow spec 3: a \<open>TxInput\<close> is
  ``previous transaction id (32-byte value, displayed reversed relative to wire order),
  previous output index (4-byte unsigned), unlocking script, sequence number (4-byte
  unsigned)'', a \<open>TxOutput\<close> is ``value in integer satoshis (8-byte unsigned), locking
  script'', a \<open>Witness\<close> is ``an ordered sequence of byte strings'', and a \<open>Transaction\<close> is
  ``version (4-byte signed), ordered sequence of TxInput, ordered sequence of TxOutput,
  witness-carrying flag, ordered sequence of Witness (index-aligned with inputs),
  locktime (4-byte unsigned)''. A script is held as the bytes it serializes to, which is
  all that the wire format carries and all that the parser reports. The transaction id is
  held in display order.
\<close>

record TxInput =
  prev_txid :: "byte list"
  prev_index :: nat
  unlocking_script :: "byte list"
  sequence_number :: nat

record TxOutput =
  satoshis :: nat
  locking_script :: "byte list"

type_synonym Witness = "byte list list"

record Transaction =
  t_version :: int
  t_inputs :: "TxInput list"
  t_outputs :: "TxOutput list"
  witness_carrying :: bool
  t_witnesses :: "Witness list"
  t_locktime :: nat

text \<open>
  Modelled from the spec: spec 4.5, ``\<open>serialize(tx) -> bytes\<close>: version (4 LE) \<cdot> [if
  witness-carrying: marker 0x00, flag 0x01] \<cdot> VarInt(input count) \<cdot> each input (32-byte
  txid reversed to wire order \<cdot> 4-byte LE vout \<cdot> VarInt-prefixed unlocking script \<cdot>
  4-byte LE sequence) \<cdot> VarInt(output count) \<cdot> each output (8-byte LE value \<cdot>
  VarInt-prefixed locking script) \<cdot> [if witness-carrying: for each input,
  VarInt(stack item count) \<cdot> each item VarInt-prefixed] \<cdot> locktime (4 LE).'' The signed
  version is written in two's complement. The witness segment walks the witness
  sequence, which the invariant of spec 3 aligns with the inputs.
\<close>

definition serialize_input :: "TxInput \<Rightarrow> byte list" where
  "serialize_input i =
     rev (prev_txid i) @ le_bytes 4 (prev_index i) @
     encode (length (unlocking_script i)) @ unlocking_script i @
     le_bytes 4 (sequence_number i)"

definition serialize_output :: "TxOutput \<Rightarrow> byte list" where
  "serialize_output out =
     le_bytes 8 (satoshis out) @ encode (length (locking_script out)) @ locking_script out"

definition serialize_item :: "byte list \<Rightarrow> byte list" where
  "serialize_item item = encode (length item) @ item"

definition serialize_witness :: "Witness \<Rightarrow> byte list" where
  "serialize_witness stack = encode (length stack) @ concat (map serialize_item stack)"

definition serialize :: "Transaction \<Rightarrow> byte list" where
  "serialize tx =
     le_bytes 4 (nat (t_version tx mod 2 ^ 32)) @
     (if witness_carrying tx then [0x00, 0x01] else []) @
     encode (length (t_inputs tx)) @ concat (map serialize_input (t_inputs tx)) @
     encode (length (t_outputs tx)) @ concat (map serialize_output (t_outputs tx)) @
     (if witness_carrying tx then concat (map serialize_witness (t_witnesses tx)) else []) @
     le_bytes 4 (t_locktime tx)"

text \<open>
  ``Field values within the declared widths'': every number fits the width of its field,
  every transaction id has 32 bytes, and every count and length fits a VarInt.
\<close>

definition input_within_widths :: "TxInput \<Rightarrow> bool" where
  "input_within_widths i \<longleftrightarrow>
     length (prev_txid i) = 32 \<and> prev_index i < 2 ^ 32 \<and>
     length (unlocking_script i) < 2 ^ 64 \<and> sequence_number i < 2 ^ 32"

definition output_within_widths :: "TxOutput \<Rightarrow> bool" where
  "output_within_widths out \<longleftrightarrow>
     satoshis out < 2 ^ 64 \<and> length (locking_script out) < 2 ^ 64"

definition witness_within_widths :: "Witness \<Rightarrow> bool" where
  "witness_within_widths stack \<longleftrightarrow>
     length stack < 2 ^ 64 \<and> list_all (\<lambda>item. length item < 2 ^ 64) stack"

definition within_widths :: "Transaction \<Rightarrow> bool" where
  "within_widths tx \<longleftrightarrow>
     - (2 ^ 31) \<le> t_version tx \<and> t_version tx < 2 ^ 31 \<and>
     length (t_inputs tx) < 2 ^ 64 \<and> list_all input_within_widths (t_inputs tx) \<and>
     length (t_outputs tx) < 2 ^ 64 \<and> list_all output_within_widths (t_outputs tx) \<and>
     list_all witness_within_widths (t_witnesses tx) \<and>
     t_locktime tx < 2 ^ 32"

text \<open>
  The invariant of spec 3: ``witness sequence length, if present, equals input count''.
  A transaction that is not witness-carrying has no witness sequence.
\<close>

definition witness_aligned :: "Transaction \<Rightarrow> bool" where
  "witness_aligned tx \<longleftrightarrow>
     (if witness_carrying tx then length (t_witnesses tx) = length (t_inputs tx)
      else t_witnesses tx = [])"

text \<open>
  The transaction as the parser's dictionary shows it: every field of the transaction in
  the parser's rendering (hexadecimal text for byte strings, version, sequence and
  locktime; the version as the unsigned reading of its four bytes), next to the counts
  and lengths that the parser adds.
\<close>

definition view_input :: "TxInput \<Rightarrow> parsed_input" where
  "view_input i =
     \<lparr>in_txid = bytes_hex (prev_txid i), in_vout = prev_index i,
      in_script_sig = bytes_hex (unlocking_script i),
      in_script_sig_len = length (unlocking_script i),
      in_sequence = format_x 8 (sequence_number i)\<rparr>"

definition view_output :: "TxOutput \<Rightarrow> parsed_output" where
  "view_output out =
     \<lparr>out_value = satoshis out, out_value_hex = format_x 16 (satoshis out),
      out_script_len = length (locking_script out),
      out_script_pubkey = bytes_hex (locking_script out)\<rparr>"

definition view_item :: "byte list \<Rightarrow> witness_item" where
  "view_item item = \<lparr>wit_len = length item, wit_data = bytes_hex item\<rparr>"

definition view_transaction :: "Transaction \<Rightarrow> parsed_tx" where
  "view_transaction tx =
     \<lparr>tx_version = format_x 8 (nat (t_version tx mod 2 ^ 32)),
      tx_is_segwit = witness_carrying tx,
      tx_marker = (if witness_carrying tx then Some ''00'' else None),
      tx_flag = (if witness_carrying tx then Some ''01'' else None),
      tx_input_count = length (t_inputs tx),
      tx_inputs = map view_input (t_inputs tx),
      tx_output_count = length (t_outputs tx),
      tx_outputs = map view_output (t_outputs tx),
      tx_witnesses = map (map view_item) (t_witnesses tx),
      tx_locktime = format_x 8 (t_locktime tx),
      tx_total_size = length (serialize tx)\<rparr>"

text \<open>
  The transaction of \<open>create_segwit_transaction\<close> before it is signed (lines 56-69 of
  \<open>02_create_segwit_transaction.py\<close>): version 2, one input spending output 0 of the UTXO
  with the default sequence \<open>0xfffffffd\<close>, one output of 666 satoshis to the P2WPKH script
  of the recipient, \<open>has_segwit=True\<close>, locktime 0. No witness data is attached: the list
  of the witnesses is empty until line 113 appends the first stack, and the source counts
  84 bytes for the serialization (line 140). The script bytes are those of the on-chain
  transaction quoted in \<open>03_parse_segwit_transaction.py\<close>, line 304.
\<close>

definition utxo_txid :: "byte list" where
  "utxo_txid =
     [0x14, 0x54, 0x43, 0x8e, 0x6f, 0x41, 0x7d, 0x71, 0x03, 0x33, 0xfb, 0xab, 0x11, 0x80,
      0x58, 0xe2, 0x97, 0x21, 0x27, 0xbd, 0xd7, 0x90, 0x13, 0x4a, 0xb7, 0x49, 0x37, 0xfa,
      0x9d, 0xdd, 0xbc, 0x48]"

definition to_script_pub_key :: "byte list" where
  "to_script_pub_key =
     [0x00, 0x14, 0xc5, 0xb2, 0x8d, 0x6b, 0xba, 0x91, 0xa2, 0x69, 0x3a, 0x9b, 0x18, 0x76,
      0xbc, 0xd3, 0x92, 0x93, 0x23, 0x89, 0x0f, 0xb2]"

definition unsigned_segwit_tx :: Transaction where
  "unsigned_segwit_tx =
     \<lparr>t_version = 2,
      t_inputs = [\<lparr>prev_txid = utxo_txid, prev_index = 0, unlocking_script = [],
                   sequence_number = 0xfffffffd\<rparr>],
      t_outputs = [\<lparr>satoshis = 666, locking_script = to_script_pub_key\<rparr>],
      witness_carrying = True,
      t_witnesses = [],
      t_locktime = 0\<rparr>"

text \<open>
  A legacy transaction without inputs: version 1, one output of 0 satoshis with an empty
  locking script, locktime 0.
\<close>

definition legacy_no_input_tx :: Transaction where
  "legacy_no_input_tx =
     \<lparr>t_version = 1, t_inputs = [],
      t_outputs = [\<lparr>satoshis = 0, locking_script = []\<rparr>],
      witness_carrying = False, t_witnesses = [], t_locktime = 0\<rparr>"

section \<open>Scripts and the P2SH locking script\<close>

text \<open>
  Modelled from the spec: the error kinds of spec 7. The sources raise none of them;
  they belong to the script and sighash components, which the scripts take from the
  \<open>bitcoinutils\<close> library.
\<close>

datatype spec_error =
  TruncatedInput | InvalidSegwitFlag | PushTooLarge | MissingInputAmount
  | IncompleteSpendData | UnknownOpcode

text \<open>
  Modelled from the spec: the script type is not among the repository's sources. Spec 3:
  a script is ``an ordered sequence of items, each either an opcode (single-byte token
  from a fixed enumeration) or a data push (raw byte string, length implicitly encoded by
  push rules: direct length byte for \<le>75 bytes, \<open>OP_PUSHDATA1/2/4\<close> for larger)''. The
  enumeration is the one spec 4.2 lists as the minimum, with the three push opcodes.
\<close>

datatype opcode =
  OP_0 | OP_1 | OP_2 | OP_3 | OP_4 | OP_5 | OP_6 | OP_7 | OP_8 | OP_9 | OP_10 | OP_11
  | OP_12 | OP_13 | OP_14 | OP_15 | OP_16 | OP_DUP | OP_HASH160 | OP_EQUALVERIFY | OP_EQUAL
  | OP_CHECKSIG | OP_CHECKMULTISIG | OP_CHECKLOCKTIMEVERIFY | OP_CHECKSEQUENCEVERIFY
  | OP_DROP | OP_RETURN | OP_PUSHDATA1 | OP_PUSHDATA2 | OP_PUSHDATA4

datatype item = Op opcode | Push "byte list"

type_synonym Script = "item list"

definition opcode_names :: "(string \<times> opcode) list" where
  "opcode_names =
     [(''OP_0'', OP_0), (''OP_1'', OP_1), (''OP_2'', OP_2), (''OP_3'', OP_3),
      (''OP_4'', OP_4), (''OP_5'', OP_5), (''OP_6'', OP_6), (''OP_7'', OP_7),
      (''OP_8'', OP_8), (''OP_9'', OP_9), (''OP_10'', OP_10), (''OP_11'', OP_11),
      (''OP_12'', OP_12), (''OP_13'', OP_13), (''OP_14'', OP_14), (''OP_15'', OP_15),
      (''OP_16'', OP_16), (''OP_DUP'', OP_DUP), (''OP_HASH160'', OP_HASH160),
      (''OP_EQUALVERIFY'', OP_EQUALVERIFY), (''OP_EQUAL'', OP_EQUAL),
      (''OP_CHECKSIG'', OP_CHECKSIG), (''OP_CHECKMULTISIG'', OP_CHECKMULTISIG),
      (''OP_CHECKLOCKTIMEVERIFY'', OP_CHECKLOCKTIMEVERIFY),
      (''OP_CHECKSEQUENCEVERIFY'', OP_CHECKSEQUENCEVERIFY), (''OP_DROP'', OP_DROP),
      (''OP_RETURN'', OP_RETURN), (''OP_PUSHDATA1'', OP_PUSHDATA1),
      (''OP_PUSHDATA2'', OP_PUSHDATA2), (''OP_PUSHDATA4'', OP_PUSHDATA4)]"

text \<open>
  Modelled from the spec: spec 4.2, ``\<open>parse_item_list(tokens) -> Script\<close>: tokens are
  either named opcodes (from a closed enumeration) or hex-encoded byte strings to be
  pushed'', and spec 7, ``\<open>UnknownOpcode\<close> (script token not in the recognized table --
  surfaced, not skipped)''.
\<close>

definition parse_token :: "string \<Rightarrow> spec_error + item" where
  "parse_token token =
     (case map_of opcode_names token of
        Some opc \<Rightarrow> Inr (Op opc)
      | None \<Rightarrow>
          (case bytes_fromhex token of
             Inl e \<Rightarrow> Inl UnknownOpcode
           | Inr bs \<Rightarrow> Inr (Push bs)))"

fun parse_item_list :: "string list \<Rightarrow> spec_error + Script" where
  "parse_item_list [] = Inr []"
| "parse_item_list (token # tokens) =
     (case parse_token token of
        Inl e \<Rightarrow> Inl e
      | Inr it \<Rightarrow>
          (case parse_item_list tokens of
             Inl e \<Rightarrow> Inl e
           | Inr its \<Rightarrow> Inr (it # its)))"

text \<open>
  Modelled from the spec: spec 4.2, ``\<open>to_bytes() -> bytes\<close>: serializes each item; opcodes
  emit their single-byte code; data pushes emit the minimal-length push prefix followed
  by raw bytes; fails with \<open>PushTooLarge\<close> if a single push exceeds the 4-byte length
  encoding''. The spec names the opcodes and leaves their byte codes to the opcode table,
  which is the parameter \<open>code\<close>. The length after \<open>OP_PUSHDATA1\<close>, \<open>OP_PUSHDATA2\<close> and
  \<open>OP_PUSHDATA4\<close> takes one, two and four bytes, little-endian.
\<close>

definition push_prefix :: "(opcode \<Rightarrow> byte) \<Rightarrow> nat \<Rightarrow> spec_error + byte list" where
  "push_prefix code n =
     (if n \<le> 75 then Inr [of_nat n]
      else if n < 2 ^ 8 then Inr (code OP_PUSHDATA1 # le_bytes 1 n)
      else if n < 2 ^ 16 then Inr (code OP_PUSHDATA2 # le_bytes 2 n)
      else if n < 2 ^ 32 then Inr (code OP_PUSHDATA4 # le_bytes 4 n)
      else Inl PushTooLarge)"

definition item_to_bytes :: "(opcode \<Rightarrow> byte) \<Rightarrow> item \<Rightarrow> spec_error + byte list" where
  "item_to_bytes code it =
     (case it of
        Op opc \<Rightarrow> Inr [code opc]
      | Push bs \<Rightarrow>
          (case push_prefix code (length bs) of
             Inl e \<Rightarrow> Inl e
           | Inr pre \<Rightarrow> Inr (pre @ bs)))"

fun to_bytes :: "(opcode \<Rightarrow> byte) \<Rightarrow> Script \<Rightarrow> spec_error + byte list" where
  "to_bytes code [] = Inr []"
| "to_bytes code (it # its) =
     (case item_to_bytes code it of
        Inl e \<Rightarrow> Inl e
      | Inr bs \<Rightarrow>
          (case to_bytes code its of
             Inl e \<Rightarrow> Inl e
           | Inr rest \<Rightarrow> Inr (bs @ rest)))"

text \<open>
  Modelled from the spec: spec 4.3, the P2SH row of the table of script templates,
  ``\<open>OP_HASH160 <20-byte hash160(redeem_script_bytes)> OP_EQUAL\<close>''. The hash is the
  external hash provider of spec 6 and is the parameter \<open>hash160\<close>.
\<close>

definition p2sh_script_pub_key ::
  "(opcode \<Rightarrow> byte) \<Rightarrow> (byte list \<Rightarrow> byte list) \<Rightarrow> Script \<Rightarrow> spec_error + Script" where
  "p2sh_script_pub_key code hash160 redeem_script =
     (case to_bytes code redeem_script of
        Inl e \<Rightarrow> Inl e
      | Inr redeem_script_bytes \<Rightarrow>
          Inr [Op OP_HASH160, Push (hash160 redeem_script_bytes), Op OP_EQUAL])"

text \<open>
  \<open>create_multisig_p2sh\<close> of \<open>01_create_multisig_p2sh.py\<close>, lines 19-43: the three public
  keys, the token list of the redeem script, and the two values the function returns,
  the P2SH address (held as its locking script; the address text is the work of the
  address codec) and the redeem script.
\<close>

definition alice_pk :: string where
  "alice_pk = ''02898711e6bf63f5cbe1b38c05e89d6c391c59e9f8f695da44bf3d20ca674c8519''"

definition bob_pk :: string where
  "bob_pk = ''0284b5951609b76619a1ce7f48977b4312ebe226987166ef044bfb374ceef63af5''"

definition carol_pk :: string where
  "carol_pk = ''0317aa89b43f46a0c0cdbd9a302f2508337ba6a06d123854481b52de9c20996011''"

text \<open>The bytes that a hexadecimal token stands for (empty when it is not hexadecimal).\<close>

definition token_bytes :: "string \<Rightarrow> byte list" where
  "token_bytes token = (case bytes_fromhex token of Inl e \<Rightarrow> [] | Inr bs \<Rightarrow> bs)"

definition create_multisig_p2sh ::
  "(opcode \<Rightarrow> byte) \<Rightarrow> (byte list \<Rightarrow> byte list) \<Rightarrow> spec_error + (Script \<times> Script)" where
  "create_multisig_p2sh code hash160 =
     (case parse_item_list
             [''OP_2'', alice_pk, bob_pk, carol_pk, ''OP_3'', ''OP_CHECKMULTISIG''] of
        Inl e \<Rightarrow> Inl e
      | Inr redeem_script \<Rightarrow>
          (case p2sh_script_pub_key code hash160 redeem_script of
             Inl e \<Rightarrow> Inl e
           | Inr p2sh_addr \<Rightarrow> Inr (p2sh_addr, redeem_script)))"

text \<open>
  The byte codes that Bitcoin gives to the opcodes of the enumeration, for use where a
  concrete table is wanted. Spec 8 shows five of them in its script
  \<open>76a914<20-byte-hex>88ac\<close>.
\<close>

definition bitcoin_code :: "opcode \<Rightarrow> byte" where
  "bitcoin_code opc =
     (case opc of
        OP_0 \<Rightarrow> 0x00 | OP_1 \<Rightarrow> 0x51 | OP_2 \<Rightarrow> 0x52 | OP_3 \<Rightarrow> 0x53 | OP_4 \<Rightarrow> 0x54
      | OP_5 \<Rightarrow> 0x55 | OP_6 \<Rightarrow> 0x56 | OP_7 \<Rightarrow> 0x57 | OP_8 \<Rightarrow> 0x58 | OP_9 \<Rightarrow> 0x59
      | OP_10 \<Rightarrow> 0x5a | OP_11 \<Rightarrow> 0x5b | OP_12 \<Rightarrow> 0x5c | OP_13 \<Rightarrow> 0x5d
      | OP_14 \<Rightarrow> 0x5e | OP_15 \<Rightarrow> 0x5f | OP_16 \<Rightarrow> 0x60 | OP_DUP \<Rightarrow> 0x76
      | OP_HASH160 \<Rightarrow> 0xa9 | OP_EQUALVERIFY \<Rightarrow> 0x88 | OP_EQUAL \<Rightarrow> 0x87
      | OP_CHECKSIG \<Rightarrow> 0xac | OP_CHECKMULTISIG \<Rightarrow> 0xae
      | OP_CHECKLOCKTIMEVERIFY \<Rightarrow> 0xb1 | OP_CHECKSEQUENCEVERIFY \<Rightarrow> 0xb2
      | OP_DROP \<Rightarrow> 0x75 | OP_RETURN \<Rightarrow> 0x6a | OP_PUSHDATA1 \<Rightarrow> 0x4c
      | OP_PUSHDATA2 \<Rightarrow> 0x4d | OP_PUSHDATA4 \<Rightarrow> 0x4e)"

section \<open>The Taproot key-path digest\<close>

text \<open>
  Modelled from the spec: the digest is computed inside \<open>sign_taproot_input\<close> of the
  \<open>bitcoinutils\<close> library, which \<open>create_simple_taproot_transaction\<close> calls with the
  transaction, the input index, the list of the scriptPubKeys and the list of the amounts
  of all inputs (lines 50-98 of \<open>02_create_simple_taproot_transaction.py\<close>); the function
  itself is not among the repository's sources. Spec 4.4: ``Requires, for every input of
  the transaction (not just the one being signed), its amount and its scriptPubKey --
  fails with \<open>IncompleteSpendData\<close> if any is missing. Preimage: a single SHA-256 tagged
  with the "TapSighash" tag, covering: sighash epoch (0x00), sighash type byte, version,
  locktime, sha256(concat(all outpoints)), sha256(concat(all amounts, 8-byte LE each)),
  sha256(concat(all scriptPubKeys with length prefix)), sha256(concat(all sequences)),
  spend type byte, and for key-path spends, input index (4-byte LE)''. The two hash
  functions are the external hash provider of spec 6 and are parameters; the spend type
  byte is given by the caller.
\<close>

definition outpoint :: "TxInput \<Rightarrow> byte list" where
  "outpoint i = rev (prev_txid i) @ le_bytes 4 (prev_index i)"

definition taproot_preimage ::
  "(byte list \<Rightarrow> byte list) \<Rightarrow> Transaction \<Rightarrow> nat \<Rightarrow> byte list list \<Rightarrow> nat list \<Rightarrow>
     byte \<Rightarrow> byte \<Rightarrow> byte list" where
  "taproot_preimage sha256 tx txin_index scripts amounts sighash_type spend_type =
     [0x00, sighash_type] @
     le_bytes 4 (nat (t_version tx mod 2 ^ 32)) @
     le_bytes 4 (t_locktime tx) @
     sha256 (concat (map outpoint (t_inputs tx))) @
     sha256 (concat (map (le_bytes 8) amounts)) @
     sha256 (concat (map serialize_item scripts)) @
     sha256 (concat (map (\<lambda>i. le_bytes 4 (sequence_number i)) (t_inputs tx))) @
     [spend_type] @
     le_bytes 4 txin_index"

definition taproot_digest ::
  "(byte list \<Rightarrow> byte list) \<Rightarrow> (string \<Rightarrow> byte list \<Rightarrow> byte list) \<Rightarrow> Transaction \<Rightarrow> nat \<Rightarrow>
     byte list list \<Rightarrow> nat list \<Rightarrow> byte \<Rightarrow> byte \<Rightarrow> spec_error + byte list" where
  "taproot_digest sha256 tagged_hash tx txin_index scripts amounts sighash_type spend_type =
     (if length amounts < length (t_inputs tx) \<or> length scripts < length (t_inputs tx)
      then Inl IncompleteSpendData
      else Inr (tagged_hash ''TapSighash''
                  (taproot_preimage sha256 tx txin_index scripts amounts sighash_type
                     spend_type)))"

text \<open>
  The transaction of \<open>create_simple_taproot_transaction\<close> before it is signed (lines
  40-70): one input spending output 0 of the previous transaction, one output of 29000
  satoshis, \<open>has_segwit=True\<close>, and an empty list of witnesses (the signature is appended
  after signing). The source takes the two P2TR scripts from addresses through the
  library; \<open>script\<close> stands for the locking script of the output.
\<close>

definition prev_txid_taproot :: "byte list" where
  "prev_txid_taproot =
     [0xb0, 0xf4, 0x9d, 0x2f, 0x30, 0xf8, 0x06, 0x78, 0xc6, 0x05, 0x3a, 0xf0, 0x9f, 0x06,
      0x11, 0x42, 0x0a, 0xac, 0xf2, 0x01, 0x05, 0x59, 0x83, 0x30, 0xcb, 0x3f, 0x0c, 0xcb,
      0x8a, 0xc7, 0xd7, 0xf0]"

definition simple_taproot_tx :: "byte list \<Rightarrow> Transaction" where
  "simple_taproot_tx script =
     \<lparr>t_version = 2,
      t_inputs = [\<lparr>prev_txid = prev_txid_taproot, prev_index = 0, unlocking_script = [],
                   sequence_number = 0xfffffffd\<rparr>],
      t_outputs = [\<lparr>satoshis = 29000, locking_script = script\<rparr>],
      witness_carrying = True,
      t_witnesses = [],
      t_locktime = 0\<rparr>"

text \<open>
  The signed transaction of the source. \<open>real_signed_tx_hex\<close> is the hexadecimal text of
  the on-chain transaction that \<open>compare_hardcoded_vs_actual\<close> parses (line 304 of
  \<open>03_parse_segwit_transaction.py\<close>), \<open>real_signed_tx_bytes\<close> the bytes it stands for.
  \<open>signed_segwit_tx\<close> is the transaction of \<open>create_segwit_transaction\<close> after phase 2:
  the unsigned transaction with the witness stack of the signature and the public key.
  The signature is the one of the on-chain transaction; the source obtains it from the
  signer.
\<close>

definition real_signed_tx_hex :: string where
  "real_signed_tx_hex =
     ''0200000000010148bcdd9dfa3749b74a1390d7bd272197e2588011abfb3303717d416f8e'' @
     ''4354140000000000fdffffff019a02000000000000160014c5b28d6bba91a2693a9b1876'' @
     ''bcd3929323890fb202473044022015098d26918b46ab36b0d1b50ee502b33d5c5b5257c7'' @
     ''6bd6d00ccb31452c25ae0220256e82d4df10981f25f91e5273be39fced8fe164434616c9'' @
     ''4fa48f3549e33c03012102898711e6bf63f5cbe1b38c05e89d6c391c59e9f8f695da44bf'' @
     ''3d20ca674c851900000000''"

definition real_signed_tx_bytes :: "byte list" where
  "real_signed_tx_bytes =
     [0x02, 0x00, 0x00, 0x00, 0x00, 0x01, 0x01, 0x48, 0xbc, 0xdd, 0x9d, 0xfa, 0x37,
      0x49, 0xb7, 0x4a, 0x13, 0x90, 0xd7, 0xbd, 0x27, 0x21, 0x97, 0xe2, 0x58, 0x80,
      0x11, 0xab, 0xfb, 0x33, 0x03, 0x71, 0x7d, 0x41, 0x6f, 0x8e, 0x43, 0x54, 0x14,
      0x00, 0x00, 0x00, 0x00, 0x00, 0xfd, 0xff, 0xff, 0xff, 0x01, 0x9a, 0x02, 0x00,
      0x00, 0x00, 0x00, 0x00, 0x00, 0x16, 0x00, 0x14, 0xc5, 0xb2, 0x8d, 0x6b, 0xba,
      0x91, 0xa2, 0x69, 0x3a, 0x9b, 0x18, 0x76, 0xbc, 0xd3, 0x92, 0x93, 0x23, 0x89,
      0x0f, 0xb2, 0x02, 0x47, 0x30, 0x44, 0x02, 0x20, 0x15, 0x09, 0x8d, 0x26, 0x91,
      0x8b, 0x46, 0xab, 0x36, 0xb0, 0xd1, 0xb5, 0x0e, 0xe5, 0x02, 0xb3, 0x3d, 0x5c,
      0x5b, 0x52, 0x57, 0xc7, 0x6b, 0xd6, 0xd0, 0x0c, 0xcb, 0x31, 0x45, 0x2c, 0x25,
      0xae, 0x02, 0x20, 0x25, 0x6e, 0x82, 0xd4, 0xdf, 0x10, 0x98, 0x1f, 0x25, 0xf9,
      0x1e, 0x52, 0x73, 0xbe, 0x39, 0xfc, 0xed, 0x8f, 0xe1, 0x64, 0x43, 0x46, 0x16,
      0xc9, 0x4f, 0xa4, 0x8f, 0x35, 0x49, 0xe3, 0x3c, 0x03, 0x01, 0x21, 0x02, 0x89,
      0x87, 0x11, 0xe6, 0xbf, 0x63, 0xf5, 0xcb, 0xe1, 0xb3, 0x8c, 0x05, 0xe8, 0x9d,
      0x6c, 0x39, 0x1c, 0x59, 0xe9, 0xf8, 0xf6, 0x95, 0xda, 0x44, 0xbf, 0x3d, 0x20,
      0xca, 0x67, 0x4c, 0x85, 0x19, 0x00, 0x00, 0x00, 0x00]"

definition signature :: "byte list" where
  "signature =
     [0x30, 0x44, 0x02, 0x20, 0x15, 0x09, 0x8d, 0x26, 0x91, 0x8b,
                     0x46, 0xab, 0x36, 0xb0, 0xd1, 0xb5, 0x0e, 0xe5, 0x02, 0xb3,
                     0x3d, 0x5c, 0x5b, 0x52, 0x57, 0xc7, 0x6b, 0xd6, 0xd0, 0x0c,
                     0xcb, 0x31, 0x45, 0x2c, 0x25, 0xae, 0x02, 0x20, 0x25, 0x6e,
                     0x82, 0xd4, 0xdf, 0x10, 0x98, 0x1f, 0x25, 0xf9, 0x1e, 0x52,
                     0x73, 0xbe, 0x39, 0xfc, 0xed, 0x8f, 0xe1, 0x64, 0x43, 0x46,
                     0x16, 0xc9, 0x4f, 0xa4, 0x8f, 0x35, 0x49, 0xe3, 0x3c, 0x03,
                     0x01]"

definition signed_segwit_tx :: Transaction where
  "signed_segwit_tx =
     unsigned_segwit_tx\<lparr>t_witnesses := [[signature, token_bytes alice_pk]]\<rparr>"

text \<open>
  The number that hexadecimal text stands for. It reads back what \<open>format_x\<close> writes, so
  that two numbers with the same rendering are the same number.
\<close>

definition hex_to_nat :: "string \<Rightarrow> nat" where
  "hex_to_nat s = foldl (\<lambda>a c. 16 * a + (case hex_value c of None \<Rightarrow> 0 | Some d \<Rightarrow> d)) 0 s"

section \<open>Truncated buffers\<close>

text \<open>
  Buffers that end inside a field, for the behaviour of the parser on truncated input.
  \<open>truncated_input_script\<close>: a transaction without marker whose only input announces an
  unlocking script of 16 bytes where 2 are left. \<open>truncated_output_script\<close>: a
  transaction without marker, with one whole input, whose only output announces a
  locking script of 5 bytes where 2 are left. \<open>truncated_output_script_segwit\<close>: the same
  after a marker and a flag, the 2 bytes left being \<open>fd 01\<close>.
  \<open>truncated_witness_item\<close>: marker and flag, one whole input, no output, and one
  witness stack of 2 items, the second of which announces 5 bytes where 1 is left.
  \<open>truncated_witness_item_first_stack\<close>: marker and flag, an input count of 2 with no
  input, no output, and a first witness stack of 2 items, the second of which announces
  5 bytes where 1 is left, the byte \<open>fd\<close>. \<open>whole_input\<close>: the entry that the parser
  makes of the input of these buffers, whose bytes are all zero.
\<close>

definition truncated_input_script :: "byte list" where
  "truncated_input_script = [1, 0, 0, 0, 1] @ replicate 36 0 @ [16, 0xaa, 0xbb]"

definition truncated_output_script :: "byte list" where
  "truncated_output_script =
     [1, 0, 0, 0, 1] @ replicate 36 0 @ [0, 0, 0, 0, 0] @
     [1, 154, 2, 0, 0, 0, 0, 0, 0, 5, 0xaa, 0xbb]"

definition truncated_output_script_segwit :: "byte list" where
  "truncated_output_script_segwit =
     [2, 0, 0, 0, 0, 1, 1] @ replicate 36 0 @ [0, 0, 0, 0, 0] @
     [1, 154, 2, 0, 0, 0, 0, 0, 0, 5, 0xfd, 1]"

definition truncated_witness_item :: "byte list" where
  "truncated_witness_item =
     [2, 0, 0, 0, 0, 1, 1] @ replicate 36 0 @ [0, 0, 0, 0, 0] @ [0] @ [2, 1, 0xaa, 5, 0xbb]"

definition truncated_witness_item_first_stack :: "byte list" where
  "truncated_witness_item_first_stack = [2, 0, 0, 0, 0, 1, 2, 0, 2, 1, 0xaa, 5, 0xfd]"

definition whole_input :: parsed_input where
  "whole_input =
     \<lparr>in_txid = replicate 64 (CHR ''0''), in_vout = 0, in_script_sig = [],
      in_script_sig_len = 0, in_sequence = ''00000000''\<rparr>"

section \<open>Little-endian fields: encoding and decoding agree\<close>

lemma length_le_bytes: "length (le_bytes k n) = k"
  by (induction k arbitrary: n) simp_all

lemma unat_byte_of_nat: "unat (of_nat m :: byte) = m mod 256"
  by (simp add: unat_of_nat)

lemma le_nat_le_bytes: "n < 256 ^ k \<Longrightarrow> le_nat (le_bytes k n) = n"
proof (induction k arbitrary: n)
  case 0
  then show ?case by simp
next
  case (Suc k)
  from Suc.prems have "n div 256 < 256 ^ k"
    by (simp add: less_mult_imp_div_less mult.commute)
  then have "le_nat (le_bytes k (n div 256)) = n div 256"
    by (rule Suc.IH)
  then show ?case
    by (simp add: unat_byte_of_nat)
qed

lemma unpack_le_bytes: "n < 256 ^ k \<Longrightarrow> unpack k (le_bytes k n) = Inr n"
  by (simp add: unpack_def length_le_bytes le_nat_le_bytes)

lemma unpack_py_slice:
  "b \<le> length xs \<Longrightarrow> b = a + k \<Longrightarrow> \<exists>v. unpack k (py_slice xs a b) = Inr v"
  by (simp add: unpack_def py_slice_def)

section \<open>VarInt round trip\<close>

text \<open>
  Claim C2. For every \<open>n < 2^64\<close>, decoding the compact encoding of \<open>n\<close> at offset 0
  gives back \<open>n\<close> together with the length of the encoding. The decoder is
  \<open>parse_varint\<close> of the source; the encoder is the one the spec describes.
\<close>

theorem parse_varint_encode:
  assumes "n < 2 ^ 64"
  shows "parse_varint (encode n) 0 = Inr (n, length (encode n))"
proof -
  consider (one) "n < 0xfd" | (two) "0xfd \<le> n" "n \<le> 0xffff"
    | (four) "0xffff < n" "n \<le> 0xffffffff" | (eight) "0xffffffff < n"
    by linarith
  then show ?thesis
  proof cases
    case one
    then have "unat (of_nat n :: byte) = n"
      by (simp add: unat_byte_of_nat)
    with one show ?thesis
      by (simp add: parse_varint_def encode_def)
  next
    case two
    then have "n < 256 ^ 2" by simp
    then have "unpack 2 (le_bytes 2 n) = Inr n"
      by (rule unpack_le_bytes)
    moreover have "py_slice ((0xfd :: byte) # le_bytes 2 n) 1 3 = le_bytes 2 n"
      by (simp add: py_slice_def length_le_bytes)
    ultimately show ?thesis using two
      by (simp add: parse_varint_def encode_def length_le_bytes)
  next
    case four
    then have "n < 256 ^ 4" by simp
    then have "unpack 4 (le_bytes 4 n) = Inr n"
      by (rule unpack_le_bytes)
    moreover have "py_slice ((0xfe :: byte) # le_bytes 4 n) 1 5 = le_bytes 4 n"
      by (simp add: py_slice_def length_le_bytes)
    ultimately show ?thesis using four
      by (simp add: parse_varint_def encode_def length_le_bytes)
  next
    case eight
    from assms have "n < 256 ^ 8" by simp
    then have "unpack 8 (le_bytes 8 n) = Inr n"
      by (rule unpack_le_bytes)
    moreover have "py_slice ((0xff :: byte) # le_bytes 8 n) 1 9 = le_bytes 8 n"
      by (simp add: py_slice_def length_le_bytes)
    ultimately show ?thesis using eight
      by (simp add: parse_varint_def encode_def length_le_bytes)
  qed
qed

theorem parse_varint_encode_witness:
  "(65536 :: nat) < 2 ^ 64 \<and>
   parse_varint (encode 65536) 0 = Inr (65536, length (encode 65536))"
  using parse_varint_encode [of 65536] by simp

section \<open>Progress of the VarInt decoder\<close>

text \<open>
  Claim C9. At every offset where the prefix byte and the bytes it announces are inside
  the buffer, \<open>parse_varint\<close> returns, its new offset is strictly greater than the old
  one, and the difference is 1, 3, 5 or 9. The loops that call it are
  \<open>for ... in range(count)\<close> loops; they are the structurally recursive functions
  \<open>parse_inputs\<close>, \<open>parse_outputs\<close>, \<open>parse_witness_items\<close> and \<open>parse_witnesses\<close>, whose
  recursion is on the number of iterations left, so each of them returns on every buffer.
\<close>

theorem parse_varint_progress:
  assumes "offset < length data"
    and "offset + varint_width (data ! offset) \<le> length data"
  shows "\<exists>n offset'. parse_varint data offset = Inr (n, offset') \<and>
           offset < offset' \<and> offset' - offset \<in> {1, 3, 5, 9}"
proof -
  let ?b = "unat (data ! offset)"
  consider (one) "?b < 0xfd" | (two) "?b = 0xfd" | (four) "?b = 0xfe"
    | (eight) "?b \<noteq> 0xfd" "?b \<noteq> 0xfe" "\<not> ?b < 0xfd"
    by blast
  then show ?thesis
  proof cases
    case one
    with assms(1) show ?thesis
      by (simp add: parse_varint_def)
  next
    case two
    with assms(2) have "offset + 3 \<le> length data"
      by (simp add: varint_width_def)
    then obtain v where "unpack 2 (py_slice data (offset + 1) (offset + 3)) = Inr v"
      using unpack_py_slice [of "offset + 3" data "offset + 1" 2] by auto
    with two assms(1) show ?thesis
      by (simp add: parse_varint_def)
  next
    case four
    with assms(2) have "offset + 5 \<le> length data"
      by (simp add: varint_width_def)
    then obtain v where "unpack 4 (py_slice data (offset + 1) (offset + 5)) = Inr v"
      using unpack_py_slice [of "offset + 5" data "offset + 1" 4] by auto
    with four assms(1) show ?thesis
      by (simp add: parse_varint_def)
  next
    case eight
    with assms(2) have "offset + 9 \<le> length data"
      by (simp add: varint_width_def)
    then obtain v where "unpack 8 (py_slice data (offset + 1) (offset + 9)) = Inr v"
      using unpack_py_slice [of "offset + 9" data "offset + 1" 8] by auto
    with eight assms(1) show ?thesis
      by (simp add: parse_varint_def)
  qed
qed

theorem parse_varint_progress_witness:
  "2 < length [0x01, 0x02, 0xfd, 0x34, 0x12, 0x00 :: byte] \<and>
   2 + varint_width ([0x01, 0x02, 0xfd, 0x34, 0x12, 0x00] ! 2)
     \<le> length [0x01, 0x02, 0xfd, 0x34, 0x12, 0x00 :: byte] \<and>
   (\<exists>n offset'. parse_varint [0x01, 0x02, 0xfd, 0x34, 0x12, 0x00] 2 = Inr (n, offset') \<and>
      2 < offset' \<and> offset' - 2 \<in> {1, 3, 5, 9})"
proof -
  have a: "2 < length [0x01, 0x02, 0xfd, 0x34, 0x12, 0x00 :: byte]"
    by simp
  have b: "2 + varint_width ([0x01, 0x02, 0xfd, 0x34, 0x12, 0x00] ! 2)
             \<le> length [0x01, 0x02, 0xfd, 0x34, 0x12, 0x00 :: byte]"
    by (simp add: varint_width_def)
  from parse_varint_progress [OF a b] a b show ?thesis
    by blast
qed

section \<open>The locktime default\<close>

text \<open>
  Claim C10. When the walk over the fields before the locktime succeeds and fewer than
  four bytes are left at the offset it reached, the parser reports no error: it returns
  its dictionary, with the locktime at its initial value 0, rendered \<open>00000000\<close>.
\<close>

theorem parse_locktime_default:
  assumes "parse_fields tx_bytes =
             Inr (version, is_segwit, marker, flag, input_count, inputs, output_count,
                  outputs, witnesses, offset)"
    and "length tx_bytes < offset + 4"
  shows "\<exists>r. parse_segwit_transaction_bytes tx_bytes = Inr r \<and>
             tx_locktime r = ''00000000''"
proof -
  have "format_x 8 0 = ''00000000''"
    by code_simp
  with assms show ?thesis
    by (simp add: parse_segwit_transaction_bytes_def)
qed

theorem parse_locktime_default_witness:
  "parse_fields [2, 0, 0, 0, 0, 1, 0, 0, 0xff, 0xff, 0xff] =
     Inr (2, True, Some 0, Some 1, 0, [], 0, [], [], 8) \<and>
   length [2, 0, 0, 0, 0, 1, 0, 0, 0xff, 0xff, 0xff :: byte] < 8 + 4 \<and>
   (\<exists>r. parse_segwit_transaction_bytes [2, 0, 0, 0, 0, 1, 0, 0, 0xff, 0xff, 0xff] = Inr r \<and>
        tx_locktime r = ''00000000'')"
proof -
  have f: "parse_fields [2, 0, 0, 0, 0, 1, 0, 0, 0xff, 0xff, 0xff] =
             Inr (2, True, Some 0, Some 1, 0, [], 0, [], [], 8)"
    by code_simp
  have l: "length [2, 0, 0, 0, 0, 1, 0, 0, 0xff, 0xff, 0xff :: byte] < 8 + 4"
    by simp
  from parse_locktime_default [OF f l] f l show ?thesis
    by blast
qed

section \<open>Offsets only grow, and bytes behind the offset are not read again\<close>

lemma py_slice_update: "i < a \<Longrightarrow> py_slice (xs[i := x]) a b = py_slice xs a b"
  by (simp add: py_slice_def drop_update_cancel)

lemma parse_varint_update:
  "i < offset \<Longrightarrow> parse_varint (xs[i := x]) offset = parse_varint xs offset"
  by (simp add: parse_varint_def py_slice_update Let_def)

lemma parse_varint_mono: "parse_varint xs offset = Inr (n, offset') \<Longrightarrow> offset < offset'"
  by (auto simp: parse_varint_def Let_def split: if_splits sum.splits)

lemma parse_inputs_update:
  "i < offset \<Longrightarrow> parse_inputs (xs[i := x]) k offset acc = parse_inputs xs k offset acc"
proof (induction k arbitrary: offset acc)
  case 0
  then show ?case by simp
next
  case (Suc k)
  have rec: "\<And>o' a. offset < o' \<Longrightarrow> parse_inputs (xs[i := x]) k o' a = parse_inputs xs k o' a"
    using Suc.IH Suc.prems by simp
  show ?case
    using Suc.prems
    by (auto simp: py_slice_update parse_varint_update Let_def rec dest!: parse_varint_mono
        split: sum.splits prod.splits)
qed

lemma parse_outputs_update:
  "i < offset \<Longrightarrow> parse_outputs (xs[i := x]) k offset acc = parse_outputs xs k offset acc"
proof (induction k arbitrary: offset acc)
  case 0
  then show ?case by simp
next
  case (Suc k)
  have rec: "\<And>o' a. offset < o' \<Longrightarrow> parse_outputs (xs[i := x]) k o' a = parse_outputs xs k o' a"
    using Suc.IH Suc.prems by simp
  show ?case
    using Suc.prems
    by (auto simp: py_slice_update parse_varint_update Let_def rec dest!: parse_varint_mono
        split: sum.splits prod.splits)
qed

lemma parse_witness_items_update:
  "i < offset \<Longrightarrow>
   parse_witness_items (xs[i := x]) k offset acc = parse_witness_items xs k offset acc"
proof (induction k arbitrary: offset acc)
  case 0
  then show ?case by simp
next
  case (Suc k)
  have rec: "\<And>o' a. offset < o' \<Longrightarrow>
                parse_witness_items (xs[i := x]) k o' a = parse_witness_items xs k o' a"
    using Suc.IH Suc.prems by simp
  show ?case
    using Suc.prems
    by (auto simp: py_slice_update parse_varint_update Let_def rec dest!: parse_varint_mono
        split: sum.splits prod.splits)
qed

lemma parse_witness_items_mono:
  "parse_witness_items xs k offset acc = Inr (items, offset') \<Longrightarrow> offset \<le> offset'"
proof (induction k arbitrary: offset acc)
  case 0
  then show ?case by simp
next
  case (Suc k)
  then show ?case
    by (fastforce simp: Let_def dest!: parse_varint_mono split: sum.splits prod.splits if_splits)
qed

lemma parse_witnesses_update:
  "i < offset \<Longrightarrow> parse_witnesses (xs[i := x]) k offset acc = parse_witnesses xs k offset acc"
proof (induction k arbitrary: offset acc)
  case 0
  then show ?case by simp
next
  case (Suc k)
  show ?case
  proof (cases "parse_varint xs offset")
    case (Inl e)
    with Suc.prems show ?thesis
      by (simp add: parse_varint_update)
  next
    case (Inr p)
    obtain c o1 where p: "p = (c, o1)"
      by (cases p)
    with Inr have o1: "offset < o1"
      using parse_varint_mono by blast
    show ?thesis
    proof (cases "parse_witness_items xs c o1 []")
      case (Inl e)
      with Inr p o1 Suc.prems show ?thesis
        by (simp add: parse_varint_update parse_witness_items_update)
    next
      case inner: (Inr q)
      obtain items o2 where q: "q = (items, o2)"
        by (cases q)
      with inner have "o1 \<le> o2"
        using parse_witness_items_mono by blast
      with o1 Suc.prems have "i < o2"
        by simp
      then have "parse_witnesses (xs[i := x]) k o2 (acc @ [items]) =
                 parse_witnesses xs k o2 (acc @ [items])"
        by (rule Suc.IH)
      with Inr p o1 inner q Suc.prems show ?thesis
        by (simp add: parse_varint_update parse_witness_items_update)
    qed
  qed
qed

lemma parse_inputs_mono:
  "parse_inputs xs k offset acc = Inr (inputs, offset') \<Longrightarrow> offset \<le> offset'"
proof (induction k arbitrary: offset acc)
  case 0
  then show ?case by simp
next
  case (Suc k)
  then show ?case
    by (fastforce simp: Let_def dest!: parse_varint_mono split: sum.splits prod.splits if_splits)
qed

lemma parse_outputs_mono:
  "parse_outputs xs k offset acc = Inr (outputs, offset') \<Longrightarrow> offset \<le> offset'"
proof (induction k arbitrary: offset acc)
  case 0
  then show ?case by simp
next
  case (Suc k)
  then show ?case
    by (fastforce simp: Let_def dest!: parse_varint_mono split: sum.splits prod.splits if_splits)
qed

lemma parse_marker_flag_present:
  assumes "5 < length tx_bytes" and "unat (tx_bytes ! 4) = 0x00"
  shows "parse_marker_flag tx_bytes 4 = Inr (True, Some 0, Some (unat (tx_bytes ! 5)), 6)"
  using assms by (simp add: parse_marker_flag_def)

lemma parse_fields_flag:
  assumes "5 < length tx_bytes" and "unat (tx_bytes ! 4) = 0x00"
  shows "parse_fields (tx_bytes[5 := b]) =
           (case parse_fields tx_bytes of
              Inl e \<Rightarrow> Inl e
            | Inr (version, is_segwit, marker, flag, rest) \<Rightarrow>
                Inr (version, is_segwit, marker, Some (unat b), rest))"
proof -
  let ?upd = "tx_bytes[5 := b]"
  have v: "py_slice ?upd 0 4 = py_slice tx_bytes 0 4"
    by (simp add: py_slice_def take_update_cancel)
  have m: "parse_marker_flag ?upd 4 = Inr (True, Some 0, Some (unat b), 6)"
    using assms by (simp add: parse_marker_flag_def)
  have m': "parse_marker_flag tx_bytes 4 = Inr (True, Some 0, Some (unat (tx_bytes ! 5)), 6)"
    using assms by (rule parse_marker_flag_present)
  have vi: "parse_varint ?upd 6 = parse_varint tx_bytes 6"
    by (rule parse_varint_update) simp
  show ?thesis
  proof (cases "parse_varint tx_bytes 6")
    case (Inl e)
    then show ?thesis
      by (simp add: parse_fields_def v m m' vi split: sum.splits)
  next
    case (Inr p1)
    obtain input_count o2 where p1: "parse_varint tx_bytes 6 = Inr (input_count, o2)"
      using Inr by (cases p1) simp
    then have o2: "6 < o2"
      by (rule parse_varint_mono)
    have pi: "parse_inputs ?upd input_count o2 [] = parse_inputs tx_bytes input_count o2 []"
      by (rule parse_inputs_update) (use o2 in simp)
    show ?thesis
    proof (cases "parse_inputs tx_bytes input_count o2 []")
      case (Inl e)
      then show ?thesis
        by (simp add: parse_fields_def v m m' vi p1 pi split: sum.splits)
    next
      case (Inr p2)
      obtain inputs o3 where p2: "parse_inputs tx_bytes input_count o2 [] = Inr (inputs, o3)"
        using Inr by (cases p2) simp
      then have "o2 \<le> o3"
        by (rule parse_inputs_mono)
      with o2 have o3: "5 < o3"
        by simp
      have vo: "parse_varint ?upd o3 = parse_varint tx_bytes o3"
        using o3 by (rule parse_varint_update)
      show ?thesis
      proof (cases "parse_varint tx_bytes o3")
        case (Inl e)
        then show ?thesis
          by (simp add: parse_fields_def v m m' vi p1 pi p2 vo split: sum.splits)
      next
        case (Inr p3)
        obtain output_count o4 where p3: "parse_varint tx_bytes o3 = Inr (output_count, o4)"
          using Inr by (cases p3) simp
        then have "o3 < o4"
          by (rule parse_varint_mono)
        with o3 have o4: "5 < o4"
          by simp
        have po: "parse_outputs ?upd output_count o4 [] =
                  parse_outputs tx_bytes output_count o4 []"
          using o4 by (rule parse_outputs_update)
        show ?thesis
        proof (cases "parse_outputs tx_bytes output_count o4 []")
          case (Inl e)
          then show ?thesis
            by (simp add: parse_fields_def v m m' vi p1 pi p2 vo p3 po split: sum.splits)
        next
          case (Inr p4)
          obtain outputs o5 where
            p4: "parse_outputs tx_bytes output_count o4 [] = Inr (outputs, o5)"
            using Inr by (cases p4) simp
          then have "o4 \<le> o5"
            by (rule parse_outputs_mono)
          with o4 have o5: "5 < o5"
            by simp
          have pw: "parse_witnesses ?upd input_count o5 [] =
                    parse_witnesses tx_bytes input_count o5 []"
            using o5 by (rule parse_witnesses_update)
          show ?thesis
            by (simp add: parse_fields_def v m m' vi p1 pi p2 vo p3 po p4 pw
                split: sum.splits prod.splits)
        qed
      qed
    qed
  qed
qed

lemma parse_witnesses_mono:
  "parse_witnesses xs k offset acc = Inr (witnesses, offset') \<Longrightarrow> offset \<le> offset'"
proof (induction k arbitrary: offset acc)
  case 0
  then show ?case by simp
next
  case (Suc k)
  then show ?case
    by (fastforce dest!: parse_varint_mono parse_witness_items_mono
        split: sum.splits prod.splits if_splits)
qed

lemma parse_fields_offset:
  assumes "parse_fields tx_bytes =
             Inr (version, is_segwit, marker, flag, input_count, inputs, output_count,
                  outputs, witnesses, offset)"
  shows "6 \<le> offset"
  using assms
  by (auto simp: parse_fields_def parse_marker_flag_def Let_def
      dest!: parse_varint_mono parse_inputs_mono parse_outputs_mono parse_witnesses_mono
      split: sum.splits prod.splits if_splits)

section \<open>The SegWit marker and flag\<close>

text \<open>
  Claim C3, as the code has it. When the byte after the four version bytes is 0x00 and
  one more byte follows, the parser takes the two bytes as marker and flag, marks the
  transaction witness-carrying and goes on with the input count at offset 6. The flag
  is reported as it was read and is never compared with 0x01: putting any byte \<open>b\<close> in
  its place changes nothing in the outcome of the parse but the reported flag. The
  parser has no error for a wrong flag.
\<close>

theorem flag_not_validated:
  assumes "5 < length tx_bytes" and "unat (tx_bytes ! 4) = 0x00"
  shows "parse_marker_flag tx_bytes 4 =
           Inr (True, Some 0, Some (unat (tx_bytes ! 5)), 6) \<and>
         parse_segwit_transaction_bytes (tx_bytes[5 := b]) =
           map_sum id (tx_flag_update (\<lambda>_. Some (format_x 2 (unat b))))
             (parse_segwit_transaction_bytes tx_bytes)"
proof -
  have "parse_segwit_transaction_bytes (tx_bytes[5 := b]) =
          map_sum id (tx_flag_update (\<lambda>_. Some (format_x 2 (unat b))))
            (parse_segwit_transaction_bytes tx_bytes)"
  proof (cases "parse_fields tx_bytes")
    case (Inl e)
    with assms show ?thesis
      by (simp add: parse_segwit_transaction_bytes_def parse_fields_flag)
  next
    case (Inr t)
    obtain version is_segwit marker flag input_count inputs rest
      where t: "t = (version, is_segwit, marker, flag, input_count, inputs, rest)"
      by (cases t)
    obtain output_count outputs witnesses offset
      where rest: "rest = (output_count, outputs, witnesses, offset)"
      by (cases rest)
    from Inr t rest have "6 \<le> offset"
      using parse_fields_offset by blast
    then have "py_slice (tx_bytes[5 := b]) offset (offset + 4) =
               py_slice tx_bytes offset (offset + 4)"
      by (simp add: py_slice_update)
    with Inr t rest assms show ?thesis
      by (simp add: parse_segwit_transaction_bytes_def parse_fields_flag split: sum.splits)
  qed
  with assms show ?thesis
    by (simp add: parse_marker_flag_present)
qed

theorem flag_not_validated_witness:
  "5 < length [2, 0, 0, 0, 0, 1, 0, 0, 0, 0, 0, 0 :: byte] \<and>
   unat ([2, 0, 0, 0, 0, 1, 0, 0, 0, 0, 0, 0 :: byte] ! 4) = 0x00 \<and>
   parse_marker_flag [2, 0, 0, 0, 0, 1, 0, 0, 0, 0, 0, 0] 4 =
     Inr (True, Some 0, Some (unat ([2, 0, 0, 0, 0, 1, 0, 0, 0, 0, 0, 0 :: byte] ! 5)), 6) \<and>
   parse_segwit_transaction_bytes ([2, 0, 0, 0, 0, 1, 0, 0, 0, 0, 0, 0][5 := 2]) =
     map_sum id (tx_flag_update (\<lambda>_. Some (format_x 2 (unat (2 :: byte)))))
       (parse_segwit_transaction_bytes [2, 0, 0, 0, 0, 1, 0, 0, 0, 0, 0, 0])"
proof -
  have a: "5 < length [2, 0, 0, 0, 0, 1, 0, 0, 0, 0, 0, 0 :: byte]"
    by simp
  have b: "unat ([2, 0, 0, 0, 0, 1, 0, 0, 0, 0, 0, 0 :: byte] ! 4) = 0x00"
    by simp
  from flag_not_validated [OF a b, of 2] a b show ?thesis
    by blast
qed

text \<open>
  The claim as the spec states it fails: the flag byte 0x02 after the marker is accepted,
  and the parse returns a result.
\<close>

theorem invalid_flag_accepted:
  "unat ([2, 0, 0, 0, 0, 2, 0, 0, 0, 0, 0, 0 :: byte] ! 4) = 0x00 \<and>
   unat ([2, 0, 0, 0, 0, 2, 0, 0, 0, 0, 0, 0 :: byte] ! 5) \<noteq> 0x01 \<and>
   parse_segwit_transaction_bytes [2, 0, 0, 0, 0, 2, 0, 0, 0, 0, 0, 0] =
     Inr \<lparr>tx_version = ''00000002'', tx_is_segwit = True, tx_marker = Some ''00'',
          tx_flag = Some ''02'', tx_input_count = 0, tx_inputs = [], tx_output_count = 0,
          tx_outputs = [], tx_witnesses = [], tx_locktime = ''00000000'',
          tx_total_size = 12\<rparr>"
  by code_simp

section \<open>Truncated input\<close>

lemma parse_varint_truncated:
  assumes "offset < length data"
    and "length data < offset + varint_width (data ! offset)"
  shows "parse_varint data offset = Inl StructError"
  using assms
  by (auto simp: parse_varint_def varint_width_def unpack_def py_slice_def Let_def
      split: if_splits)

lemma parse_varint_inside: "parse_varint xs offset = Inr (n, offset') \<Longrightarrow> offset < length xs"
  by (auto simp: parse_varint_def split: if_splits)

lemma parse_inputs_script_overrun:
  assumes "parse_varint tx_bytes (i + 36) = Inr (n, i')"
    and "length tx_bytes < i' + n"
  shows "parse_inputs tx_bytes (Suc k) i inputs = Inl StructError"
proof -
  from assms(1) have len: "i + 36 < length tx_bytes"
    by (rule parse_varint_inside)
  then have "length (py_slice tx_bytes (i + 32) (i + 32 + 4)) = 4"
    by (simp add: py_slice_def)
  then obtain vout where v: "unpack 4 (py_slice tx_bytes (i + 32) (i + 32 + 4)) = Inr vout"
    by (simp add: unpack_def)
  from assms(2) have "py_slice tx_bytes (i' + n) (i' + n + 4) = []"
    by (simp add: py_slice_def)
  then have s: "unpack 4 (py_slice tx_bytes (i' + n) (i' + n + 4)) = Inl StructError"
    by (simp add: unpack_def)
  from assms(1) have vi: "parse_varint tx_bytes (i + 32 + 4) = Inr (n, i')"
    by (simp add: add.assoc)
  from len v vi s show ?thesis
    by (simp add: Let_def)
qed

lemma parse_outputs_script_overrun:
  assumes "parse_varint tx_bytes (j + 8) = Inr (m, j')"
    and "length tx_bytes < j' + m"
  shows "parse_outputs tx_bytes (Suc k) j outputs = Inr (outputs, j')"
proof -
  from assms(1) have len: "j + 8 < length tx_bytes"
    by (rule parse_varint_inside)
  then have "length (py_slice tx_bytes j (j + 8)) = 8"
    by (simp add: py_slice_def)
  then obtain v where v: "unpack 8 (py_slice tx_bytes j (j + 8)) = Inr v"
    by (simp add: unpack_def)
  from len v assms show ?thesis
    by (simp add: Let_def)
qed

lemma parse_witness_items_overrun:
  assumes "parse_varint tx_bytes w = Inr (l, w')"
    and "length tx_bytes < w' + l"
  shows "parse_witness_items tx_bytes (Suc k) w witness_items = Inr (witness_items, w')"
proof -
  from assms(1) have "w < length tx_bytes"
    by (rule parse_varint_inside)
  with assms show ?thesis
    by simp
qed

lemma parse_short_version:
  assumes "length short < 4"
  shows "parse_segwit_transaction_bytes short = Inl StructError"
  using assms
  by (simp add: parse_segwit_transaction_bytes_def parse_fields_def unpack_def py_slice_def)

lemma parse_fields_raises:
  "parse_fields tx_bytes = Inl e \<Longrightarrow> parse_segwit_transaction_bytes tx_bytes = Inl e"
  by (simp add: parse_segwit_transaction_bytes_def)

lemma parse_fields_returns:
  assumes "parse_fields tx_bytes =
             Inr (version, is_segwit, marker, flag, input_count, inputs, output_count, outputs,
                  witnesses, offset)"
  shows "\<exists>r. parse_segwit_transaction_bytes tx_bytes = Inr r \<and> tx_is_segwit r = is_segwit \<and>
             tx_input_count r = input_count \<and> tx_inputs r = inputs \<and>
             tx_output_count r = output_count \<and> tx_outputs r = outputs \<and>
             tx_witnesses r = witnesses"
proof (cases "offset + 4 \<le> length tx_bytes")
  case True
  then have "length (py_slice tx_bytes offset (offset + 4)) = 4"
    by (simp add: py_slice_def)
  then obtain locktime where "unpack 4 (py_slice tx_bytes offset (offset + 4)) = Inr locktime"
    by (simp add: unpack_def)
  with True assms show ?thesis
    by (simp add: parse_segwit_transaction_bytes_def)
next
  case False
  with assms show ?thesis
    by (simp add: parse_segwit_transaction_bytes_def)
qed

lemma parse_marker_flag_offset:
  "parse_marker_flag tx_bytes 4 = Inr (is_segwit, marker, flag, offset) \<Longrightarrow> 4 \<le> offset"
  by (auto simp: parse_marker_flag_def Let_def split: if_splits)

lemma parse_version_present:
  assumes "parse_marker_flag tx_bytes 4 = Inr (is_segwit, marker, flag, offset1)"
    and "parse_varint tx_bytes offset1 = Inr (input_count, offset2)"
  shows "\<exists>version. unpack 4 (py_slice tx_bytes 0 4) = Inr version"
proof -
  from assms(1) have "4 \<le> offset1"
    by (rule parse_marker_flag_offset)
  moreover from assms(2) have "offset1 < length tx_bytes"
    by (rule parse_varint_inside)
  ultimately have "length (py_slice tx_bytes 0 4) = 4"
    by (simp add: py_slice_def)
  then show ?thesis
    by (simp add: unpack_def)
qed

lemma parse_fields_input_raises:
  assumes "parse_marker_flag tx_bytes 4 = Inr (is_segwit, marker, flag, offset1)"
    and "parse_varint tx_bytes offset1 = Inr (input_count, offset2)"
    and "parse_inputs tx_bytes input_count offset2 [] = Inl e"
  shows "parse_segwit_transaction_bytes tx_bytes = Inl e"
proof -
  from assms(1,2) obtain version where "unpack 4 (py_slice tx_bytes 0 4) = Inr version"
    using parse_version_present by blast
  with assms have "parse_fields tx_bytes = Inl e"
    by (simp add: parse_fields_def)
  then show ?thesis
    by (rule parse_fields_raises)
qed

lemma parse_fields_stages:
  assumes "parse_marker_flag tx_bytes 4 = Inr (is_segwit, marker, flag, offset1)"
    and "parse_varint tx_bytes offset1 = Inr (input_count, offset2)"
    and "parse_inputs tx_bytes input_count offset2 [] = Inr (inputs, offset3)"
    and "parse_varint tx_bytes offset3 = Inr (output_count, offset4)"
    and "parse_outputs tx_bytes output_count offset4 [] = Inr (outputs, offset5)"
  shows "\<exists>version.
           parse_fields tx_bytes =
             (case (if is_segwit \<and> offset5 < length tx_bytes
                    then parse_witnesses tx_bytes input_count offset5 []
                    else Inr ([], offset5)) of
                Inl e \<Rightarrow> Inl e
              | Inr (witnesses, offset6) \<Rightarrow>
                  Inr (version, is_segwit, marker, flag, input_count, inputs, output_count,
                       outputs, witnesses, offset6))"
proof -
  from assms(1,2) obtain version where "unpack 4 (py_slice tx_bytes 0 4) = Inr version"
    using parse_version_present by blast
  with assms have
    "parse_fields tx_bytes =
       (case (if is_segwit \<and> offset5 < length tx_bytes
              then parse_witnesses tx_bytes input_count offset5 []
              else Inr ([], offset5)) of
          Inl e \<Rightarrow> Inl e
        | Inr (witnesses, offset6) \<Rightarrow>
            Inr (version, is_segwit, marker, flag, input_count, inputs, output_count,
                 outputs, witnesses, offset6))"
    by (simp add: parse_fields_def)
  then show ?thesis ..
qed

lemma parse_after_outputs:
  assumes "parse_marker_flag tx_bytes 4 = Inr (is_segwit, marker, flag, offset1)"
    and "parse_varint tx_bytes offset1 = Inr (input_count, offset2)"
    and "parse_inputs tx_bytes input_count offset2 [] = Inr (inputs, offset3)"
    and "parse_varint tx_bytes offset3 = Inr (output_count, offset4)"
    and "parse_outputs tx_bytes output_count offset4 [] = Inr (outputs, offset5)"
  shows "(\<not> is_segwit \<or> length tx_bytes \<le> offset5 \<longrightarrow>
            (\<exists>r. parse_segwit_transaction_bytes tx_bytes = Inr r \<and> tx_outputs r = outputs \<and>
                 tx_witnesses r = [])) \<and>
         (is_segwit \<and> offset5 < length tx_bytes \<longrightarrow>
            (case parse_witnesses tx_bytes input_count offset5 [] of
               Inl e \<Rightarrow> parse_segwit_transaction_bytes tx_bytes = Inl e
             | Inr (witnesses, offset6) \<Rightarrow>
                 (\<exists>r. parse_segwit_transaction_bytes tx_bytes = Inr r \<and>
                      tx_outputs r = outputs \<and> tx_witnesses r = witnesses)))"
proof -
  from parse_fields_stages [OF assms] obtain version where
    f: "parse_fields tx_bytes =
          (case (if is_segwit \<and> offset5 < length tx_bytes
                 then parse_witnesses tx_bytes input_count offset5 []
                 else Inr ([], offset5)) of
             Inl e \<Rightarrow> Inl e
           | Inr (witnesses, offset6) \<Rightarrow>
               Inr (version, is_segwit, marker, flag, input_count, inputs, output_count,
                    outputs, witnesses, offset6))"
    by blast
  show ?thesis
  proof (intro conjI impI)
    assume "\<not> is_segwit \<or> length tx_bytes \<le> offset5"
    then have "\<not> (is_segwit \<and> offset5 < length tx_bytes)"
      by auto
    with f have
      "parse_fields tx_bytes =
         Inr (version, is_segwit, marker, flag, input_count, inputs, output_count, outputs,
              [], offset5)"
      by simp
    from parse_fields_returns [OF this]
    show "\<exists>r. parse_segwit_transaction_bytes tx_bytes = Inr r \<and> tx_outputs r = outputs \<and>
              tx_witnesses r = []"
      by blast
  next
    assume s: "is_segwit \<and> offset5 < length tx_bytes"
    show "case parse_witnesses tx_bytes input_count offset5 [] of
            Inl e \<Rightarrow> parse_segwit_transaction_bytes tx_bytes = Inl e
          | Inr (witnesses, offset6) \<Rightarrow>
              (\<exists>r. parse_segwit_transaction_bytes tx_bytes = Inr r \<and>
                   tx_outputs r = outputs \<and> tx_witnesses r = witnesses)"
    proof (cases "parse_witnesses tx_bytes input_count offset5 []")
      case (Inl e)
      with f s have "parse_fields tx_bytes = Inl e"
        by simp
      then have "parse_segwit_transaction_bytes tx_bytes = Inl e"
        by (rule parse_fields_raises)
      with Inl show ?thesis
        by simp
    next
      case (Inr p)
      obtain witnesses offset6 where p: "p = (witnesses, offset6)"
        by (cases p)
      with Inr f s have
        "parse_fields tx_bytes =
           Inr (version, is_segwit, marker, flag, input_count, inputs, output_count, outputs,
                witnesses, offset6)"
        by simp
      from parse_fields_returns [OF this]
      have "\<exists>r. parse_segwit_transaction_bytes tx_bytes = Inr r \<and> tx_outputs r = outputs \<and>
                tx_witnesses r = witnesses"
        by blast
      with Inr p show ?thesis
        by simp
    qed
  qed
qed

lemma parse_after_witness_item:
  assumes "parse_marker_flag tx_bytes 4 = Inr (True, marker, flag, offset1)"
    and "parse_varint tx_bytes offset1 = Inr (input_count, offset2)"
    and "parse_inputs tx_bytes input_count offset2 [] = Inr (inputs, offset3)"
    and "parse_varint tx_bytes offset3 = Inr (output_count, offset4)"
    and "parse_outputs tx_bytes output_count offset4 [] = Inr (outputs, offset5)"
    and "offset5 < length tx_bytes"
    and "parse_witnesses tx_bytes input_count offset5 [] =
           parse_witnesses tx_bytes (Suc k) p stacks"
    and "parse_varint tx_bytes p = Inr (item_count, p1)"
    and "parse_witness_items tx_bytes item_count p1 [] = Inr (witness_items, p2)"
  shows "(k = 0 \<longrightarrow>
            (\<exists>r. parse_segwit_transaction_bytes tx_bytes = Inr r \<and>
                 tx_witnesses r = stacks @ [witness_items])) \<and>
         (case parse_witnesses tx_bytes k p2 (stacks @ [witness_items]) of
            Inl e \<Rightarrow> parse_segwit_transaction_bytes tx_bytes = Inl e
          | Inr (witnesses, offset6) \<Rightarrow>
              (\<exists>r. parse_segwit_transaction_bytes tx_bytes = Inr r \<and>
                   tx_witnesses r = witnesses))"
proof -
  from assms(8) have "p < length tx_bytes"
    by (rule parse_varint_inside)
  with assms(8,9) have
    "parse_witnesses tx_bytes (Suc k) p stacks =
       parse_witnesses tx_bytes k p2 (stacks @ [witness_items])"
    by simp
  with assms(7) have w:
    "parse_witnesses tx_bytes input_count offset5 [] =
       parse_witnesses tx_bytes k p2 (stacks @ [witness_items])"
    by simp
  from parse_after_outputs [OF assms(1-5)] assms(6) have c:
    "case parse_witnesses tx_bytes input_count offset5 [] of
       Inl e \<Rightarrow> parse_segwit_transaction_bytes tx_bytes = Inl e
     | Inr (witnesses, offset6) \<Rightarrow>
         (\<exists>r. parse_segwit_transaction_bytes tx_bytes = Inr r \<and>
              tx_outputs r = outputs \<and> tx_witnesses r = witnesses)"
    by simp
  have c': "case parse_witnesses tx_bytes k p2 (stacks @ [witness_items]) of
       Inl e \<Rightarrow> parse_segwit_transaction_bytes tx_bytes = Inl e
     | Inr (witnesses, offset6) \<Rightarrow>
         (\<exists>r. parse_segwit_transaction_bytes tx_bytes = Inr r \<and>
              tx_witnesses r = witnesses)"
    using c unfolding w by (auto split: sum.splits)
  show ?thesis
  proof (intro conjI impI)
    assume "k = 0"
    with c' show "\<exists>r. parse_segwit_transaction_bytes tx_bytes = Inr r \<and>
                      tx_witnesses r = stacks @ [witness_items]"
      by simp
  next
    show "case parse_witnesses tx_bytes k p2 (stacks @ [witness_items]) of
            Inl e \<Rightarrow> parse_segwit_transaction_bytes tx_bytes = Inl e
          | Inr (witnesses, offset6) \<Rightarrow>
              (\<exists>r. parse_segwit_transaction_bytes tx_bytes = Inr r \<and>
                   tx_witnesses r = witnesses)"
      by (rule c')
  qed
qed

text \<open>
  Claim C4, as the code has it. A VarInt whose prefix announces more bytes than the
  buffer holds makes \<open>parse_varint\<close> raise \<open>struct.error\<close>, and nothing is returned. The
  transaction parser raises the same error, and returns nothing, on a buffer shorter than
  the four version bytes, and when the unlocking-script length of an input runs past the
  end of the buffer (the sequence that should follow is missing). When the
  locking-script length of an output runs past the end, nothing is raised there: the
  loop over the outputs stops at its \<open>break\<close> with the outputs read before, and the parser
  reads on from the offset after the length field. Without the marker, or with no byte
  left, it returns a result with those outputs and no witness; with the marker and bytes
  left it runs the loop over the witness stacks from that offset, raises what that loop
  raises, and otherwise returns a result with those outputs and the stacks of that loop.
  When the length of a witness item runs past the end, nothing is raised there either:
  the loop over the items stops with the items read before, they are kept as a stack, and
  the loop over the stacks goes on from the offset after the length field; the parser
  raises what the rest of that loop raises, and otherwise returns a result with its
  stacks; when the stack was the last one, it returns a result whose last stack holds the
  items read before. That a loop has come to an offset with a number of iterations left
  and a list of entries read is written as an equation between the loop from its start
  and the loop from there.
\<close>

theorem truncated_input_behaviour:
  "(offset < length data \<and> length data < offset + varint_width (data ! offset) \<longrightarrow>
      parse_varint data offset = Inl StructError) \<and>
   (length short < 4 \<longrightarrow> parse_segwit_transaction_bytes short = Inl StructError) \<and>
   (parse_marker_flag ti 4 = Inr (is_segwit_i, marker_i, flag_i, i1) \<and>
    parse_varint ti i1 = Inr (input_count_i, i2) \<and>
    parse_inputs ti input_count_i i2 [] = parse_inputs ti (Suc ki) i inputs_i \<and>
    parse_varint ti (i + 36) = Inr (n, i') \<and> length ti < i' + n \<longrightarrow>
      parse_segwit_transaction_bytes ti = Inl StructError) \<and>
   (parse_marker_flag tx_bytes 4 = Inr (is_segwit, marker, flag, o1) \<and>
    parse_varint tx_bytes o1 = Inr (input_count, o2) \<and>
    parse_inputs tx_bytes input_count o2 [] = Inr (inputs, o3) \<and>
    parse_varint tx_bytes o3 = Inr (output_count, o4) \<and>
    parse_outputs tx_bytes output_count o4 [] = parse_outputs tx_bytes (Suc ko) j outputs \<and>
    parse_varint tx_bytes (j + 8) = Inr (m, j') \<and> length tx_bytes < j' + m \<longrightarrow>
      (\<not> is_segwit \<or> length tx_bytes \<le> j' \<longrightarrow>
         (\<exists>r. parse_segwit_transaction_bytes tx_bytes = Inr r \<and> tx_outputs r = outputs \<and>
              tx_witnesses r = [])) \<and>
      (is_segwit \<and> j' < length tx_bytes \<longrightarrow>
         (case parse_witnesses tx_bytes input_count j' [] of
            Inl e \<Rightarrow> parse_segwit_transaction_bytes tx_bytes = Inl e
          | Inr (witnesses, o6) \<Rightarrow>
              (\<exists>r. parse_segwit_transaction_bytes tx_bytes = Inr r \<and>
                   tx_outputs r = outputs \<and> tx_witnesses r = witnesses)))) \<and>
   (parse_marker_flag tw 4 = Inr (True, marker_w, flag_w, w1) \<and>
    parse_varint tw w1 = Inr (input_count_w, w2) \<and>
    parse_inputs tw input_count_w w2 [] = Inr (inputs_w, w3) \<and>
    parse_varint tw w3 = Inr (output_count_w, w4) \<and>
    parse_outputs tw output_count_w w4 [] = Inr (outputs_w, w5) \<and>
    w5 < length tw \<and>
    parse_witnesses tw input_count_w w5 [] = parse_witnesses tw (Suc kw) p stacks \<and>
    parse_varint tw p = Inr (item_count, p1) \<and>
    parse_witness_items tw item_count p1 [] =
      parse_witness_items tw (Suc kj) q witness_items \<and>
    parse_varint tw q = Inr (l, q') \<and> length tw < q' + l \<longrightarrow>
      (kw = 0 \<longrightarrow>
         (\<exists>r. parse_segwit_transaction_bytes tw = Inr r \<and>
              tx_witnesses r = stacks @ [witness_items])) \<and>
      (case parse_witnesses tw kw q' (stacks @ [witness_items]) of
         Inl e \<Rightarrow> parse_segwit_transaction_bytes tw = Inl e
       | Inr (witnesses, w6) \<Rightarrow>
           (\<exists>r. parse_segwit_transaction_bytes tw = Inr r \<and> tx_witnesses r = witnesses)))"
proof (intro conjI)
  show "offset < length data \<and> length data < offset + varint_width (data ! offset) \<longrightarrow>
        parse_varint data offset = Inl StructError"
    by (simp add: parse_varint_truncated)
next
  show "length short < 4 \<longrightarrow> parse_segwit_transaction_bytes short = Inl StructError"
    by (simp add: parse_short_version)
next
  show "parse_marker_flag ti 4 = Inr (is_segwit_i, marker_i, flag_i, i1) \<and>
        parse_varint ti i1 = Inr (input_count_i, i2) \<and>
        parse_inputs ti input_count_i i2 [] = parse_inputs ti (Suc ki) i inputs_i \<and>
        parse_varint ti (i + 36) = Inr (n, i') \<and> length ti < i' + n \<longrightarrow>
        parse_segwit_transaction_bytes ti = Inl StructError"
  proof (intro impI, elim conjE)
    assume mf: "parse_marker_flag ti 4 = Inr (is_segwit_i, marker_i, flag_i, i1)"
      and ic: "parse_varint ti i1 = Inr (input_count_i, i2)"
      and st: "parse_inputs ti input_count_i i2 [] = parse_inputs ti (Suc ki) i inputs_i"
      and sl: "parse_varint ti (i + 36) = Inr (n, i')"
      and ov: "length ti < i' + n"
    from sl ov have "parse_inputs ti (Suc ki) i inputs_i = Inl StructError"
      by (rule parse_inputs_script_overrun)
    with st have "parse_inputs ti input_count_i i2 [] = Inl StructError"
      by simp
    with mf ic show "parse_segwit_transaction_bytes ti = Inl StructError"
      by (rule parse_fields_input_raises)
  qed
next
  show "parse_marker_flag tx_bytes 4 = Inr (is_segwit, marker, flag, o1) \<and>
    parse_varint tx_bytes o1 = Inr (input_count, o2) \<and>
    parse_inputs tx_bytes input_count o2 [] = Inr (inputs, o3) \<and>
    parse_varint tx_bytes o3 = Inr (output_count, o4) \<and>
    parse_outputs tx_bytes output_count o4 [] = parse_outputs tx_bytes (Suc ko) j outputs \<and>
    parse_varint tx_bytes (j + 8) = Inr (m, j') \<and> length tx_bytes < j' + m \<longrightarrow>
      (\<not> is_segwit \<or> length tx_bytes \<le> j' \<longrightarrow>
         (\<exists>r. parse_segwit_transaction_bytes tx_bytes = Inr r \<and> tx_outputs r = outputs \<and>
              tx_witnesses r = [])) \<and>
      (is_segwit \<and> j' < length tx_bytes \<longrightarrow>
         (case parse_witnesses tx_bytes input_count j' [] of
            Inl e \<Rightarrow> parse_segwit_transaction_bytes tx_bytes = Inl e
          | Inr (witnesses, o6) \<Rightarrow>
              (\<exists>r. parse_segwit_transaction_bytes tx_bytes = Inr r \<and>
                   tx_outputs r = outputs \<and> tx_witnesses r = witnesses)))"
  proof (rule impI, elim conjE)
    assume mf: "parse_marker_flag tx_bytes 4 = Inr (is_segwit, marker, flag, o1)"
      and ic: "parse_varint tx_bytes o1 = Inr (input_count, o2)"
      and ins: "parse_inputs tx_bytes input_count o2 [] = Inr (inputs, o3)"
      and oc: "parse_varint tx_bytes o3 = Inr (output_count, o4)"
      and st: "parse_outputs tx_bytes output_count o4 [] =
                 parse_outputs tx_bytes (Suc ko) j outputs"
      and sl: "parse_varint tx_bytes (j + 8) = Inr (m, j')"
      and ov: "length tx_bytes < j' + m"
    from sl ov have "parse_outputs tx_bytes (Suc ko) j outputs = Inr (outputs, j')"
      by (rule parse_outputs_script_overrun)
    with st have "parse_outputs tx_bytes output_count o4 [] = Inr (outputs, j')"
      by simp
    with mf ic ins oc show
      "(\<not> is_segwit \<or> length tx_bytes \<le> j' \<longrightarrow>
         (\<exists>r. parse_segwit_transaction_bytes tx_bytes = Inr r \<and> tx_outputs r = outputs \<and>
              tx_witnesses r = [])) \<and>
       (is_segwit \<and> j' < length tx_bytes \<longrightarrow>
         (case parse_witnesses tx_bytes input_count j' [] of
            Inl e \<Rightarrow> parse_segwit_transaction_bytes tx_bytes = Inl e
          | Inr (witnesses, o6) \<Rightarrow>
              (\<exists>r. parse_segwit_transaction_bytes tx_bytes = Inr r \<and>
                   tx_outputs r = outputs \<and> tx_witnesses r = witnesses)))"
      by (rule parse_after_outputs)
  qed
next
  show "parse_marker_flag tw 4 = Inr (True, marker_w, flag_w, w1) \<and>
    parse_varint tw w1 = Inr (input_count_w, w2) \<and>
    parse_inputs tw input_count_w w2 [] = Inr (inputs_w, w3) \<and>
    parse_varint tw w3 = Inr (output_count_w, w4) \<and>
    parse_outputs tw output_count_w w4 [] = Inr (outputs_w, w5) \<and>
    w5 < length tw \<and>
    parse_witnesses tw input_count_w w5 [] = parse_witnesses tw (Suc kw) p stacks \<and>
    parse_varint tw p = Inr (item_count, p1) \<and>
    parse_witness_items tw item_count p1 [] =
      parse_witness_items tw (Suc kj) q witness_items \<and>
    parse_varint tw q = Inr (l, q') \<and> length tw < q' + l \<longrightarrow>
      (kw = 0 \<longrightarrow>
         (\<exists>r. parse_segwit_transaction_bytes tw = Inr r \<and>
              tx_witnesses r = stacks @ [witness_items])) \<and>
      (case parse_witnesses tw kw q' (stacks @ [witness_items]) of
         Inl e \<Rightarrow> parse_segwit_transaction_bytes tw = Inl e
       | Inr (witnesses, w6) \<Rightarrow>
           (\<exists>r. parse_segwit_transaction_bytes tw = Inr r \<and> tx_witnesses r = witnesses))"
  proof (rule impI, elim conjE)
    assume mf: "parse_marker_flag tw 4 = Inr (True, marker_w, flag_w, w1)"
      and ic: "parse_varint tw w1 = Inr (input_count_w, w2)"
      and ins: "parse_inputs tw input_count_w w2 [] = Inr (inputs_w, w3)"
      and oc: "parse_varint tw w3 = Inr (output_count_w, w4)"
      and outs: "parse_outputs tw output_count_w w4 [] = Inr (outputs_w, w5)"
      and left: "w5 < length tw"
      and st: "parse_witnesses tw input_count_w w5 [] = parse_witnesses tw (Suc kw) p stacks"
      and cnt: "parse_varint tw p = Inr (item_count, p1)"
      and sti: "parse_witness_items tw item_count p1 [] =
                  parse_witness_items tw (Suc kj) q witness_items"
      and sl: "parse_varint tw q = Inr (l, q')"
      and ov: "length tw < q' + l"
    from sl ov have "parse_witness_items tw (Suc kj) q witness_items = Inr (witness_items, q')"
      by (rule parse_witness_items_overrun)
    with sti have "parse_witness_items tw item_count p1 [] = Inr (witness_items, q')"
      by simp
    with mf ic ins oc outs left st cnt show
      "(kw = 0 \<longrightarrow>
         (\<exists>r. parse_segwit_transaction_bytes tw = Inr r \<and>
              tx_witnesses r = stacks @ [witness_items])) \<and>
       (case parse_witnesses tw kw q' (stacks @ [witness_items]) of
          Inl e \<Rightarrow> parse_segwit_transaction_bytes tw = Inl e
        | Inr (witnesses, w6) \<Rightarrow>
            (\<exists>r. parse_segwit_transaction_bytes tw = Inr r \<and> tx_witnesses r = witnesses))"
      by (rule parse_after_witness_item)
  qed
qed

theorem truncated_input_behaviour_witness:
  "parse_varint [0xfd, 0x01] 0 = Inl StructError \<and>
   parse_segwit_transaction_bytes [1, 0] = Inl StructError \<and>
   parse_varint truncated_input_script (5 + 36) = Inr (16, 42) \<and>
   length truncated_input_script < 42 + 16 \<and>
   parse_segwit_transaction_bytes truncated_input_script = Inl StructError \<and>
   parse_varint truncated_output_script (47 + 8) = Inr (5, 56) \<and>
   length truncated_output_script < 56 + 5 \<and>
   (\<exists>r. parse_segwit_transaction_bytes truncated_output_script = Inr r \<and>
        tx_outputs r = [] \<and> tx_witnesses r = []) \<and>
   parse_varint truncated_output_script_segwit (49 + 8) = Inr (5, 58) \<and>
   length truncated_output_script_segwit < 58 + 5 \<and>
   parse_witnesses truncated_output_script_segwit 1 58 [] = Inl StructError \<and>
   parse_segwit_transaction_bytes truncated_output_script_segwit = Inl StructError \<and>
   parse_varint truncated_witness_item 52 = Inr (5, 53) \<and>
   length truncated_witness_item < 53 + 5 \<and>
   (\<exists>r. parse_segwit_transaction_bytes truncated_witness_item = Inr r \<and>
        tx_witnesses r = [] @ [[\<lparr>wit_len = 1, wit_data = ''aa''\<rparr>]]) \<and>
   parse_varint truncated_witness_item_first_stack 11 = Inr (5, 12) \<and>
   length truncated_witness_item_first_stack < 12 + 5 \<and>
   parse_witnesses truncated_witness_item_first_stack 1 12
     ([] @ [[\<lparr>wit_len = 1, wit_data = ''aa''\<rparr>]]) = Inl StructError \<and>
   parse_segwit_transaction_bytes truncated_witness_item_first_stack = Inl StructError"
proof -
  have a: "0 < length [0xfd, 0x01 :: byte] \<and>
           length [0xfd, 0x01 :: byte] < 0 + varint_width ([0xfd, 0x01] ! 0)"
    by (simp add: varint_width_def)
  have b: "length [1, 0 :: byte] < 4"
    by simp
  have i1: "parse_marker_flag truncated_input_script 4 = Inr (False, None, None, 4)"
    by code_simp
  have i2: "parse_varint truncated_input_script 4 = Inr (1, 5)"
    by code_simp
  have i3: "parse_inputs truncated_input_script 1 5 [] =
            parse_inputs truncated_input_script (Suc 0) 5 []"
    by simp
  have i4: "parse_varint truncated_input_script (5 + 36) = Inr (16, 42)"
    by code_simp
  have i5: "length truncated_input_script < 42 + 16"
    by (simp add: truncated_input_script_def)
  have o1: "parse_marker_flag truncated_output_script 4 = Inr (False, None, None, 4)"
    by code_simp
  have o2: "parse_varint truncated_output_script 4 = Inr (1, 5)"
    by code_simp
  have o3: "parse_inputs truncated_output_script 1 5 [] = Inr ([whole_input], 46)"
    by code_simp
  have o4: "parse_varint truncated_output_script 46 = Inr (1, 47)"
    by code_simp
  have o5: "parse_outputs truncated_output_script 1 47 [] =
            parse_outputs truncated_output_script (Suc 0) 47 []"
    by simp
  have o6: "parse_varint truncated_output_script (47 + 8) = Inr (5, 56)"
    by code_simp
  have o7: "length truncated_output_script < 56 + 5"
    by (simp add: truncated_output_script_def)
  have s1: "parse_marker_flag truncated_output_script_segwit 4 =
            Inr (True, Some 0, Some 1, 6)"
    by code_simp
  have s2: "parse_varint truncated_output_script_segwit 6 = Inr (1, 7)"
    by code_simp
  have s3: "parse_inputs truncated_output_script_segwit 1 7 [] = Inr ([whole_input], 48)"
    by code_simp
  have s4: "parse_varint truncated_output_script_segwit 48 = Inr (1, 49)"
    by code_simp
  have s5: "parse_outputs truncated_output_script_segwit 1 49 [] =
            parse_outputs truncated_output_script_segwit (Suc 0) 49 []"
    by simp
  have s6: "parse_varint truncated_output_script_segwit (49 + 8) = Inr (5, 58)"
    by code_simp
  have s7: "length truncated_output_script_segwit < 58 + 5"
    by (simp add: truncated_output_script_segwit_def)
  have s8: "True \<and> 58 < length truncated_output_script_segwit"
    by (simp add: truncated_output_script_segwit_def)
  have s9: "parse_witnesses truncated_output_script_segwit 1 58 [] = Inl StructError"
    by code_simp
  have w1: "parse_marker_flag truncated_witness_item 4 = Inr (True, Some 0, Some 1, 6)"
    by code_simp
  have w2: "parse_varint truncated_witness_item 6 = Inr (1, 7)"
    by code_simp
  have w3: "parse_inputs truncated_witness_item 1 7 [] = Inr ([whole_input], 48)"
    by code_simp
  have w4: "parse_varint truncated_witness_item 48 = Inr (0, 49)"
    by code_simp
  have w5: "parse_outputs truncated_witness_item 0 49 [] = Inr ([], 49)"
    by simp
  have w6: "49 < length truncated_witness_item"
    by (simp add: truncated_witness_item_def)
  have w7: "parse_witnesses truncated_witness_item 1 49 [] =
            parse_witnesses truncated_witness_item (Suc 0) 49 []"
    by simp
  have w8: "parse_varint truncated_witness_item 49 = Inr (2, 50)"
    by code_simp
  have w9: "parse_witness_items truncated_witness_item 2 50 [] =
            parse_witness_items truncated_witness_item (Suc 0) 52
              [\<lparr>wit_len = 1, wit_data = ''aa''\<rparr>]"
    by code_simp
  have w10: "parse_varint truncated_witness_item 52 = Inr (5, 53)"
    by code_simp
  have w11: "length truncated_witness_item < 53 + 5"
    by (simp add: truncated_witness_item_def)
  have f1: "parse_marker_flag truncated_witness_item_first_stack 4 =
            Inr (True, Some 0, Some 1, 6)"
    by code_simp
  have f2: "parse_varint truncated_witness_item_first_stack 6 = Inr (2, 7)"
    by code_simp
  have f3: "parse_inputs truncated_witness_item_first_stack 2 7 [] = Inr ([], 7)"
    by code_simp
  have f4: "parse_varint truncated_witness_item_first_stack 7 = Inr (0, 8)"
    by code_simp
  have f5: "parse_outputs truncated_witness_item_first_stack 0 8 [] = Inr ([], 8)"
    by simp
  have f6: "8 < length truncated_witness_item_first_stack"
    by (simp add: truncated_witness_item_first_stack_def)
  have f7: "parse_witnesses truncated_witness_item_first_stack 2 8 [] =
            parse_witnesses truncated_witness_item_first_stack (Suc 1) 8 []"
    by (simp add: numeral_2_eq_2)
  have f8: "parse_varint truncated_witness_item_first_stack 8 = Inr (2, 9)"
    by code_simp
  have f9: "parse_witness_items truncated_witness_item_first_stack 2 9 [] =
            parse_witness_items truncated_witness_item_first_stack (Suc 0) 11
              [\<lparr>wit_len = 1, wit_data = ''aa''\<rparr>]"
    by code_simp
  have f10: "parse_varint truncated_witness_item_first_stack 11 = Inr (5, 12)"
    by code_simp
  have f11: "length truncated_witness_item_first_stack < 12 + 5"
    by (simp add: truncated_witness_item_first_stack_def)
  have f12: "parse_witnesses truncated_witness_item_first_stack 1 12
               ([] @ [[\<lparr>wit_len = 1, wit_data = ''aa''\<rparr>]]) = Inl StructError"
    by code_simp
  note t = truncated_input_behaviour
  note t1 = t [THEN conjunct1, THEN mp, OF a]
  note t2 = t [THEN conjunct2, THEN conjunct1, THEN mp, OF b]
  have hi: "parse_marker_flag truncated_input_script 4 = Inr (False, None, None, 4) \<and>
            parse_varint truncated_input_script 4 = Inr (1, 5) \<and>
            parse_inputs truncated_input_script 1 5 [] =
              parse_inputs truncated_input_script (Suc 0) 5 [] \<and>
            parse_varint truncated_input_script (5 + 36) = Inr (16, 42) \<and>
            length truncated_input_script < 42 + 16"
    by (intro conjI i1 i2 i3 i4 i5)
  note t3 = t [THEN conjunct2, THEN conjunct2, THEN conjunct1, THEN mp, OF hi]
  have ho: "parse_marker_flag truncated_output_script 4 = Inr (False, None, None, 4) \<and>
            parse_varint truncated_output_script 4 = Inr (1, 5) \<and>
            parse_inputs truncated_output_script 1 5 [] = Inr ([whole_input], 46) \<and>
            parse_varint truncated_output_script 46 = Inr (1, 47) \<and>
            parse_outputs truncated_output_script 1 47 [] =
              parse_outputs truncated_output_script (Suc 0) 47 [] \<and>
            parse_varint truncated_output_script (47 + 8) = Inr (5, 56) \<and>
            length truncated_output_script < 56 + 5"
    by (intro conjI o1 o2 o3 o4 o5 o6 o7)
  have nm: "\<not> False \<or> length truncated_output_script \<le> 56"
    by simp
  note t4 = t [THEN conjunct2, THEN conjunct2, THEN conjunct2, THEN conjunct1, THEN mp,
      OF ho, THEN conjunct1, THEN mp, OF nm]
  have hs: "parse_marker_flag truncated_output_script_segwit 4 =
              Inr (True, Some 0, Some 1, 6) \<and>
            parse_varint truncated_output_script_segwit 6 = Inr (1, 7) \<and>
            parse_inputs truncated_output_script_segwit 1 7 [] = Inr ([whole_input], 48) \<and>
            parse_varint truncated_output_script_segwit 48 = Inr (1, 49) \<and>
            parse_outputs truncated_output_script_segwit 1 49 [] =
              parse_outputs truncated_output_script_segwit (Suc 0) 49 [] \<and>
            parse_varint truncated_output_script_segwit (49 + 8) = Inr (5, 58) \<and>
            length truncated_output_script_segwit < 58 + 5"
    by (intro conjI s1 s2 s3 s4 s5 s6 s7)
  note t5 = t [THEN conjunct2, THEN conjunct2, THEN conjunct2, THEN conjunct1, THEN mp,
      OF hs, THEN conjunct2, THEN mp, OF s8]
  from t5 have t5': "parse_segwit_transaction_bytes truncated_output_script_segwit =
                     Inl StructError"
    by (simp only: s9 sum.case)
  have hw: "parse_marker_flag truncated_witness_item 4 = Inr (True, Some 0, Some 1, 6) \<and>
            parse_varint truncated_witness_item 6 = Inr (1, 7) \<and>
            parse_inputs truncated_witness_item 1 7 [] = Inr ([whole_input], 48) \<and>
            parse_varint truncated_witness_item 48 = Inr (0, 49) \<and>
            parse_outputs truncated_witness_item 0 49 [] = Inr ([], 49) \<and>
            49 < length truncated_witness_item \<and>
            parse_witnesses truncated_witness_item 1 49 [] =
              parse_witnesses truncated_witness_item (Suc 0) 49 [] \<and>
            parse_varint truncated_witness_item 49 = Inr (2, 50) \<and>
            parse_witness_items truncated_witness_item 2 50 [] =
              parse_witness_items truncated_witness_item (Suc 0) 52
                [\<lparr>wit_len = 1, wit_data = ''aa''\<rparr>] \<and>
            parse_varint truncated_witness_item 52 = Inr (5, 53) \<and>
            length truncated_witness_item < 53 + 5"
    by (intro conjI w1 w2 w3 w4 w5 w6 w7 w8 w9 w10 w11)
  note t6 = t [THEN conjunct2, THEN conjunct2, THEN conjunct2, THEN conjunct2, THEN mp,
      OF hw, THEN conjunct1, THEN mp, OF refl]
  have hf: "parse_marker_flag truncated_witness_item_first_stack 4 =
              Inr (True, Some 0, Some 1, 6) \<and>
            parse_varint truncated_witness_item_first_stack 6 = Inr (2, 7) \<and>
            parse_inputs truncated_witness_item_first_stack 2 7 [] = Inr ([], 7) \<and>
            parse_varint truncated_witness_item_first_stack 7 = Inr (0, 8) \<and>
            parse_outputs truncated_witness_item_first_stack 0 8 [] = Inr ([], 8) \<and>
            8 < length truncated_witness_item_first_stack \<and>
            parse_witnesses truncated_witness_item_first_stack 2 8 [] =
              parse_witnesses truncated_witness_item_first_stack (Suc 1) 8 [] \<and>
            parse_varint truncated_witness_item_first_stack 8 = Inr (2, 9) \<and>
            parse_witness_items truncated_witness_item_first_stack 2 9 [] =
              parse_witness_items truncated_witness_item_first_stack (Suc 0) 11
                [\<lparr>wit_len = 1, wit_data = ''aa''\<rparr>] \<and>
            parse_varint truncated_witness_item_first_stack 11 = Inr (5, 12) \<and>
            length truncated_witness_item_first_stack < 12 + 5"
    by (intro conjI f1 f2 f3 f4 f5 f6 f7 f8 f9 f10 f11)
  note t7 = t [THEN conjunct2, THEN conjunct2, THEN conjunct2, THEN conjunct2, THEN mp,
      OF hf, THEN conjunct2]
  from t7 have t7': "parse_segwit_transaction_bytes truncated_witness_item_first_stack =
                     Inl StructError"
    by (simp only: f12 sum.case)
  show ?thesis
    by (intro conjI t1 t2 i4 i5 t3 o6 o7 t4 s6 s7 s9 t5' w10 w11 t6 f10 f11 f12 t7')
qed

text \<open>
  The claim as the spec states it fails: here the script length of the only output
  announces five bytes where two are left, and the parser returns a result, with an
  output count of 1, no output and the default locktime.
\<close>

theorem truncated_output_script_returned:
  "parse_varint [2, 0, 0, 0, 0, 1, 0, 1, 154, 2, 0, 0, 0, 0, 0, 0, 5, 0xaa, 0xbb] 16 = Inr (5, 17) \<and>
   length [2, 0, 0, 0, 0, 1, 0, 1, 154, 2, 0, 0, 0, 0, 0, 0, 5, 0xaa, 0xbb :: byte] < 17 + 5 \<and>
   parse_segwit_transaction_bytes
     [2, 0, 0, 0, 0, 1, 0, 1, 154, 2, 0, 0, 0, 0, 0, 0, 5, 0xaa, 0xbb] =
     Inr \<lparr>tx_version = ''00000002'', tx_is_segwit = True, tx_marker = Some ''00'',
          tx_flag = Some ''01'', tx_input_count = 0, tx_inputs = [], tx_output_count = 1,
          tx_outputs = [], tx_witnesses = [], tx_locktime = ''00000000'',
          tx_total_size = 19\<rparr>"
  by code_simp

section \<open>Marker and flag of a witness-carrying transaction\<close>

text \<open>
  Claim C6. The serialization of every witness-carrying transaction has the marker 0x00
  as its fifth byte and the flag 0x01 as its sixth, whatever its witnesses hold. The
  witness of the theorem is the scenario of the claim: the unsigned transaction of
  \<open>create_segwit_transaction\<close>, with one input, one output of 666 satoshis to a P2WPKH
  script, SegWit enabled and no witness attached.
\<close>

theorem marker_flag_present:
  assumes "witness_carrying tx"
  shows "serialize tx ! 4 = 0x00 \<and> serialize tx ! 5 = 0x01"
proof -
  define v where "v = le_bytes 4 (nat (t_version tx mod 2 ^ 32))"
  define r where
    "r = encode (length (t_inputs tx)) @ concat (map serialize_input (t_inputs tx)) @
         encode (length (t_outputs tx)) @ concat (map serialize_output (t_outputs tx)) @
         concat (map serialize_witness (t_witnesses tx)) @ le_bytes 4 (t_locktime tx)"
  have l: "length v = 4"
    unfolding v_def by (rule length_le_bytes)
  have s: "serialize tx = v @ [0x00, 0x01] @ r"
    using assms unfolding serialize_def v_def r_def by simp
  have "(v @ [0x00, 0x01] @ r) ! 4 = 0x00"
    using l by (simp add: nth_append)
  moreover have "(v @ [0x00, 0x01] @ r) ! 5 = 0x01"
    using l by (simp add: nth_append)
  ultimately show ?thesis
    by (simp only: s)
qed

theorem marker_flag_present_witness:
  "witness_carrying unsigned_segwit_tx \<and>
   length (t_inputs unsigned_segwit_tx) = 1 \<and>
   map satoshis (t_outputs unsigned_segwit_tx) = [666] \<and>
   t_witnesses unsigned_segwit_tx = [] \<and>
   serialize unsigned_segwit_tx ! 4 = 0x00 \<and> serialize unsigned_segwit_tx ! 5 = 0x01"
proof -
  have wc: "witness_carrying unsigned_segwit_tx"
    by (simp add: unsigned_segwit_tx_def)
  have "length (t_inputs unsigned_segwit_tx) = 1 \<and>
        map satoshis (t_outputs unsigned_segwit_tx) = [666] \<and>
        t_witnesses unsigned_segwit_tx = []"
    by (simp add: unsigned_segwit_tx_def)
  with wc marker_flag_present [OF wc] show ?thesis
    by simp
qed

section \<open>Reading back what the serializer wrote\<close>

text \<open>
  A field that stands in the buffer at the offset of the parser is read back as it was
  written, whatever precedes and follows it; each loop of the parser reads back the
  whole list that the serializer wrote.
\<close>

lemma py_slice_mid:
  "a = length pre \<Longrightarrow> b = a + length ys \<Longrightarrow> py_slice (pre @ ys @ post) a b = ys"
  by (simp add: py_slice_def)

lemma unpack_mid:
  "n < 256 ^ k \<Longrightarrow> a = length pre \<Longrightarrow> b = a + k \<Longrightarrow>
   unpack k (py_slice (pre @ le_bytes k n @ post) a b) = Inr n"
  by (simp add: py_slice_mid length_le_bytes unpack_le_bytes)

lemma unpack_mid_prefixed:
  "n < 256 ^ k \<Longrightarrow> a = Suc (length pre) \<Longrightarrow> b = a + k \<Longrightarrow>
   unpack k (py_slice (pre @ (p # le_bytes k n) @ post) a b) = Inr n"
  using unpack_mid [of n k a "pre @ [p]" b post] by simp

lemma parse_varint_mid:
  assumes "n < 2 ^ 64" and "a = length pre"
  shows "parse_varint (pre @ encode n @ post) a = Inr (n, a + length (encode n))"
proof -
  consider (one) "n < 0xfd" | (two) "0xfd \<le> n" "n \<le> 0xffff"
    | (four) "0xffff < n" "n \<le> 0xffffffff" | (eight) "0xffffffff < n"
    by linarith
  then show ?thesis
  proof cases
    case one
    then have "unat (of_nat n :: byte) = n"
      by (simp add: unat_byte_of_nat)
    with one assms(2) show ?thesis
      by (simp add: parse_varint_def encode_def)
  next
    case two
    then have "n < 256 ^ 2" by simp
    then have "unpack 2 (py_slice (pre @ (0xfd # le_bytes 2 n) @ post) (a + 1) (a + 3)) = Inr n"
      using assms(2) by (intro unpack_mid_prefixed) simp_all
    with two assms(2) show ?thesis
      by (simp add: parse_varint_def encode_def length_le_bytes)
  next
    case four
    then have "n < 256 ^ 4" by simp
    then have "unpack 4 (py_slice (pre @ (0xfe # le_bytes 4 n) @ post) (a + 1) (a + 5)) = Inr n"
      using assms(2) by (intro unpack_mid_prefixed) simp_all
    with four assms(2) show ?thesis
      by (simp add: parse_varint_def encode_def length_le_bytes)
  next
    case eight
    from assms(1) have "n < 256 ^ 8" by simp
    then have "unpack 8 (py_slice (pre @ (0xff # le_bytes 8 n) @ post) (a + 1) (a + 9)) = Inr n"
      using assms(2) by (intro unpack_mid_prefixed) simp_all
    with eight assms(2) show ?thesis
      by (simp add: parse_varint_def encode_def length_le_bytes)
  qed
qed

lemma length_encode_pos: "0 < length (encode n)"
  by (simp add: encode_def)


lemma bytes_hex_Nil: "bytes_hex [] = []"
  by (simp add: bytes_hex_def)

lemma parse_inputs_step:
  assumes "input_within_widths i"
  shows "parse_inputs (pre @ serialize_input i @ post) (Suc k) (length pre) acc =
         parse_inputs (pre @ serialize_input i @ post) k
           (length pre + length (serialize_input i)) (acc @ [view_input i])"
proof -
  define t where "t = rev (prev_txid i)"
  define s where "s = unlocking_script i"
  define e where "e = encode (length s)"
  define v where "v = le_bytes 4 (prev_index i)"
  define q where "q = le_bytes 4 (sequence_number i)"
  define B where "B = pre @ serialize_input i @ post"
  define o2 where "o2 = length pre + 32 + 4 + length e"
  from assms have lt: "length t = 32" and wv: "prev_index i < 256 ^ 4"
    and ws: "length s < 2 ^ 64" and wq: "sequence_number i < 256 ^ 4"
    by (simp_all add: input_within_widths_def t_def s_def)
  have lv: "length v = 4" and lq: "length q = 4"
    by (simp_all add: v_def q_def length_le_bytes)
  have B1: "B = pre @ t @ (v @ e @ s @ q @ post)"
    by (simp add: B_def serialize_input_def t_def s_def e_def v_def q_def)
  have B2: "B = (pre @ t) @ le_bytes 4 (prev_index i) @ (e @ s @ q @ post)"
    by (simp add: B1 v_def)
  have B3: "B = (pre @ t @ v) @ encode (length s) @ (s @ q @ post)"
    by (simp add: B1 e_def)
  have B4: "B = (pre @ t @ v @ e) @ s @ (q @ post)"
    by (simp add: B1)
  have B5: "B = (pre @ t @ v @ e @ s) @ le_bytes 4 (sequence_number i) @ post"
    by (simp add: B1 q_def)
  have len: "(length B < length pre + 32) = False"
    by (simp add: B1 lt)
  have txid: "py_slice B (length pre) (length pre + 32) = t"
    unfolding B1 by (rule py_slice_mid) (simp_all add: lt)
  have vout: "unpack 4 (py_slice B (length pre + 32) (length pre + 32 + 4)) = Inr (prev_index i)"
    unfolding B2 by (rule unpack_mid) (use lt wv in simp_all)
  have vi: "parse_varint B (length pre + 32 + 4) = Inr (length s, o2)"
    unfolding B3 o2_def e_def by (rule parse_varint_mid) (use lt lv ws in simp_all)
  have sc: "py_slice B o2 (o2 + length s) = s"
    unfolding B4 o2_def by (rule py_slice_mid) (simp_all add: lt lv)
  have scsig: "(if 0 < length s then bytes_hex (py_slice B o2 (o2 + length s)) else []) =
               bytes_hex s"
    by (simp add: sc bytes_hex_Nil)
  have sq: "unpack 4 (py_slice B (o2 + length s) (o2 + length s + 4)) = Inr (sequence_number i)"
    unfolding B5 o2_def by (rule unpack_mid) (use lt lv wq in simp_all)
  have fin: "o2 + length s + 4 = length pre + length (serialize_input i)"
    by (simp add: o2_def serialize_input_def lt lv lq t_def [symmetric] s_def [symmetric]
        e_def [symmetric] v_def [symmetric] q_def [symmetric])
  have tx: "rev t = prev_txid i"
    by (simp add: t_def)
  have view: "\<lparr>in_txid = bytes_hex (prev_txid i), in_vout = prev_index i,
                in_script_sig = bytes_hex s, in_script_sig_len = length s,
                in_sequence = format_x 8 (sequence_number i)\<rparr> = view_input i"
    by (simp add: view_input_def s_def)
  have "parse_inputs B (Suc k) (length pre) acc =
        parse_inputs B k (o2 + length s + 4) (acc @ [view_input i])"
    by (simp only: parse_inputs.simps Let_def len if_False txid vout vi sum.case prod.case
        scsig sq tx view)
  then show ?thesis
    by (simp only: B_def fin)
qed


lemma parse_inputs_all:
  "list_all input_within_widths ins \<Longrightarrow>
   parse_inputs (pre @ concat (map serialize_input ins) @ post) (length ins) (length pre) acc =
   Inr (acc @ map view_input ins, length pre + length (concat (map serialize_input ins)))"
proof (induction ins arbitrary: pre acc)
  case Nil
  then show ?case by simp
next
  case (Cons i ins)
  from Cons.prems have i: "input_within_widths i" and ins: "list_all input_within_widths ins"
    by simp_all
  have "parse_inputs (pre @ serialize_input i @ (concat (map serialize_input ins) @ post))
          (Suc (length ins)) (length pre) acc =
        parse_inputs (pre @ serialize_input i @ (concat (map serialize_input ins) @ post))
          (length ins) (length pre + length (serialize_input i)) (acc @ [view_input i])"
    using i by (rule parse_inputs_step)
  also have "\<dots> = parse_inputs ((pre @ serialize_input i) @ concat (map serialize_input ins) @ post)
          (length ins) (length (pre @ serialize_input i)) (acc @ [view_input i])"
    by simp
  also have "\<dots> = Inr ((acc @ [view_input i]) @ map view_input ins,
          length (pre @ serialize_input i) + length (concat (map serialize_input ins)))"
    using ins by (rule Cons.IH)
  finally show ?case
    by simp
qed

lemma parse_outputs_step:
  assumes "output_within_widths out"
  shows "parse_outputs (pre @ serialize_output out @ post) (Suc k) (length pre) acc =
         parse_outputs (pre @ serialize_output out @ post) k
           (length pre + length (serialize_output out)) (acc @ [view_output out])"
proof -
  define s where "s = locking_script out"
  define e where "e = encode (length s)"
  define v where "v = le_bytes 8 (satoshis out)"
  define B where "B = pre @ serialize_output out @ post"
  define o2 where "o2 = length pre + 8 + length e"
  from assms have wv: "satoshis out < 256 ^ 8" and ws: "length s < 2 ^ 64"
    by (simp_all add: output_within_widths_def s_def)
  have lv: "length v = 8"
    by (simp add: v_def length_le_bytes)
  have le: "0 < length e"
    unfolding e_def by (rule length_encode_pos)
  have B1: "B = pre @ le_bytes 8 (satoshis out) @ (e @ s @ post)"
    by (simp add: B_def serialize_output_def s_def e_def)
  have B2: "B = (pre @ v) @ encode (length s) @ (s @ post)"
    by (simp add: B1 e_def v_def)
  have B3: "B = (pre @ v @ e) @ s @ post"
    by (simp add: B1 v_def)
  have len1: "(length B < length pre + 8) = False"
    by (simp add: B3 lv)
  have len2: "(length B \<le> length pre + 8) = False"
    using le by (simp add: B3 lv)
  have len3: "(length B < o2 + length s) = False"
    by (simp add: B3 lv o2_def)
  have val: "unpack 8 (py_slice B (length pre) (length pre + 8)) = Inr (satoshis out)"
    unfolding B1 by (rule unpack_mid) (use wv in simp_all)
  have vi: "parse_varint B (length pre + 8) = Inr (length s, o2)"
    unfolding B2 o2_def e_def by (rule parse_varint_mid) (use lv ws in simp_all)
  have sc: "py_slice B o2 (o2 + length s) = s"
    unfolding B3 o2_def by (rule py_slice_mid) (simp_all add: lv)
  have fin: "o2 + length s = length pre + length (serialize_output out)"
    by (simp add: o2_def serialize_output_def length_le_bytes s_def [symmetric]
        e_def [symmetric])
  have view: "\<lparr>out_value = satoshis out, out_value_hex = format_x 16 (satoshis out),
                out_script_len = length s, out_script_pubkey = bytes_hex s\<rparr> = view_output out"
    by (simp add: view_output_def s_def)
  have "parse_outputs B (Suc k) (length pre) acc =
        parse_outputs B k (o2 + length s) (acc @ [view_output out])"
    by (simp only: parse_outputs.simps Let_def len1 len2 len3 if_False val vi sum.case prod.case
        sc view)
  then show ?thesis
    by (simp only: B_def fin)
qed

lemma parse_outputs_all:
  "list_all output_within_widths outs \<Longrightarrow>
   parse_outputs (pre @ concat (map serialize_output outs) @ post) (length outs) (length pre) acc =
   Inr (acc @ map view_output outs, length pre + length (concat (map serialize_output outs)))"
proof (induction outs arbitrary: pre acc)
  case Nil
  then show ?case by simp
next
  case (Cons out outs)
  from Cons.prems have out: "output_within_widths out"
    and outs: "list_all output_within_widths outs"
    by simp_all
  have "parse_outputs (pre @ serialize_output out @ (concat (map serialize_output outs) @ post))
          (Suc (length outs)) (length pre) acc =
        parse_outputs (pre @ serialize_output out @ (concat (map serialize_output outs) @ post))
          (length outs) (length pre + length (serialize_output out)) (acc @ [view_output out])"
    using out by (rule parse_outputs_step)
  also have "\<dots> = parse_outputs
          ((pre @ serialize_output out) @ concat (map serialize_output outs) @ post)
          (length outs) (length (pre @ serialize_output out)) (acc @ [view_output out])"
    by simp
  also have "\<dots> = Inr ((acc @ [view_output out]) @ map view_output outs,
          length (pre @ serialize_output out) + length (concat (map serialize_output outs)))"
    using outs by (rule Cons.IH)
  finally show ?case
    by simp
qed

lemma parse_witness_items_step:
  assumes "length item < 2 ^ 64"
  shows "parse_witness_items (pre @ serialize_item item @ post) (Suc k) (length pre) acc =
         parse_witness_items (pre @ serialize_item item @ post) k
           (length pre + length (serialize_item item)) (acc @ [view_item item])"
proof -
  define e where "e = encode (length item)"
  define B where "B = pre @ serialize_item item @ post"
  define o1 where "o1 = length pre + length e"
  have le: "0 < length e"
    unfolding e_def by (rule length_encode_pos)
  have B1: "B = pre @ encode (length item) @ (item @ post)"
    by (simp add: B_def serialize_item_def)
  have B2: "B = (pre @ e) @ item @ post"
    by (simp add: B1 e_def)
  have len1: "(length B \<le> length pre) = False"
    using le by (simp add: B2)
  have len2: "(length B < o1 + length item) = False"
    by (simp add: B2 o1_def)
  have vi: "parse_varint B (length pre) = Inr (length item, o1)"
    unfolding B1 o1_def e_def by (rule parse_varint_mid) (use assms in simp_all)
  have sc: "py_slice B o1 (o1 + length item) = item"
    unfolding B2 o1_def by (rule py_slice_mid) simp_all
  have scd: "(if 0 < length item then bytes_hex (py_slice B o1 (o1 + length item)) else []) =
             bytes_hex item"
    by (simp add: sc bytes_hex_Nil)
  have fin: "o1 + length item = length pre + length (serialize_item item)"
    by (simp add: o1_def serialize_item_def e_def)
  have view: "\<lparr>wit_len = length item, wit_data = bytes_hex item\<rparr> = view_item item"
    by (simp add: view_item_def)
  have "parse_witness_items B (Suc k) (length pre) acc =
        parse_witness_items B k (o1 + length item) (acc @ [view_item item])"
    by (simp only: parse_witness_items.simps Let_def len1 len2 if_False vi sum.case prod.case
        scd view)
  then show ?thesis
    by (simp only: B_def fin)
qed

lemma parse_witness_items_all:
  "list_all (\<lambda>item. length item < 2 ^ 64) stack \<Longrightarrow>
   parse_witness_items (pre @ concat (map serialize_item stack) @ post) (length stack)
     (length pre) acc =
   Inr (acc @ map view_item stack, length pre + length (concat (map serialize_item stack)))"
proof (induction stack arbitrary: pre acc)
  case Nil
  then show ?case by simp
next
  case (Cons item stack)
  from Cons.prems have item: "length item < 2 ^ 64"
    and stack: "list_all (\<lambda>item. length item < 2 ^ 64) stack"
    by simp_all
  have "parse_witness_items (pre @ serialize_item item @ (concat (map serialize_item stack) @ post))
          (Suc (length stack)) (length pre) acc =
        parse_witness_items (pre @ serialize_item item @ (concat (map serialize_item stack) @ post))
          (length stack) (length pre + length (serialize_item item)) (acc @ [view_item item])"
    using item by (rule parse_witness_items_step)
  also have "\<dots> = parse_witness_items
          ((pre @ serialize_item item) @ concat (map serialize_item stack) @ post)
          (length stack) (length (pre @ serialize_item item)) (acc @ [view_item item])"
    by simp
  also have "\<dots> = Inr ((acc @ [view_item item]) @ map view_item stack,
          length (pre @ serialize_item item) + length (concat (map serialize_item stack)))"
    using stack by (rule Cons.IH)
  finally show ?case
    by simp
qed

lemma parse_witnesses_step:
  assumes "witness_within_widths stack"
  shows "parse_witnesses (pre @ serialize_witness stack @ post) (Suc k) (length pre) acc =
         parse_witnesses (pre @ serialize_witness stack @ post) k
           (length pre + length (serialize_witness stack)) (acc @ [map view_item stack])"
proof -
  define e where "e = encode (length stack)"
  define c where "c = concat (map serialize_item stack)"
  define B where "B = pre @ serialize_witness stack @ post"
  define o1 where "o1 = length pre + length e"
  from assms have wn: "length stack < 2 ^ 64"
    and wi: "list_all (\<lambda>item. length item < 2 ^ 64) stack"
    by (simp_all add: witness_within_widths_def)
  have le: "0 < length e"
    unfolding e_def by (rule length_encode_pos)
  have B1: "B = pre @ encode (length stack) @ (c @ post)"
    by (simp add: B_def serialize_witness_def c_def)
  have B2: "B = (pre @ e) @ concat (map serialize_item stack) @ post"
    by (simp add: B1 e_def c_def)
  have len1: "(length B \<le> length pre) = False"
    using le by (simp add: B2)
  have vi: "parse_varint B (length pre) = Inr (length stack, o1)"
    unfolding B1 o1_def e_def by (rule parse_varint_mid) (use wn in simp_all)
  have "parse_witness_items ((pre @ e) @ concat (map serialize_item stack) @ post)
          (length stack) (length (pre @ e)) [] =
        Inr ([] @ map view_item stack, length (pre @ e) + length (concat (map serialize_item stack)))"
    using wi by (rule parse_witness_items_all)
  then have items: "parse_witness_items B (length stack) o1 [] =
                    Inr (map view_item stack, o1 + length c)"
    by (simp add: B2 o1_def c_def)
  have fin: "o1 + length c = length pre + length (serialize_witness stack)"
    by (simp add: o1_def serialize_witness_def e_def c_def)
  have "parse_witnesses B (Suc k) (length pre) acc =
        parse_witnesses B k (o1 + length c) (acc @ [map view_item stack])"
    by (simp only: parse_witnesses.simps len1 if_False vi items sum.case prod.case)
  then show ?thesis
    by (simp only: B_def fin)
qed

lemma parse_witnesses_all:
  "list_all witness_within_widths stacks \<Longrightarrow>
   parse_witnesses (pre @ concat (map serialize_witness stacks) @ post) (length stacks)
     (length pre) acc =
   Inr (acc @ map (map view_item) stacks,
        length pre + length (concat (map serialize_witness stacks)))"
proof (induction stacks arbitrary: pre acc)
  case Nil
  then show ?case by simp
next
  case (Cons stack stacks)
  from Cons.prems have stack: "witness_within_widths stack"
    and stacks: "list_all witness_within_widths stacks"
    by simp_all
  have "parse_witnesses
          (pre @ serialize_witness stack @ (concat (map serialize_witness stacks) @ post))
          (Suc (length stacks)) (length pre) acc =
        parse_witnesses
          (pre @ serialize_witness stack @ (concat (map serialize_witness stacks) @ post))
          (length stacks) (length pre + length (serialize_witness stack))
          (acc @ [map view_item stack])"
    using stack by (rule parse_witnesses_step)
  also have "\<dots> = parse_witnesses
          ((pre @ serialize_witness stack) @ concat (map serialize_witness stacks) @ post)
          (length stacks) (length (pre @ serialize_witness stack))
          (acc @ [map view_item stack])"
    by simp
  also have "\<dots> = Inr ((acc @ [map view_item stack]) @ map (map view_item) stacks,
          length (pre @ serialize_witness stack) +
          length (concat (map serialize_witness stacks)))"
    using stacks by (rule Cons.IH)
  finally show ?case
    by simp
qed

lemma encode_first_nonzero:
  assumes "0 < n"
  shows "unat (encode n ! 0) \<noteq> 0"
proof (cases "n < 0xfd")
  case True
  then have "unat (of_nat n :: byte) = n"
    by (simp add: unat_byte_of_nat)
  with True assms show ?thesis
    by (simp add: encode_def)
next
  case False
  then show ?thesis
    by (simp add: encode_def)
qed

lemma format_x_marker_flag: "format_x 2 0 = ''00''" "format_x 2 (Suc 0) = ''01''"
  by code_simp+

lemma parse_serialize:
  assumes ww: "within_widths tx" and wa: "witness_aligned tx"
    and ne: "witness_carrying tx \<or> t_inputs tx \<noteq> []"
  shows "parse_segwit_transaction_bytes (serialize tx) = Inr (view_transaction tx)"
proof -
  define wc where "wc = witness_carrying tx"
  define vn where "vn = nat (t_version tx mod 2 ^ 32)"
  define V where "V = le_bytes 4 vn"
  define MF where "MF = (if wc then [0x00, 0x01 :: byte] else [])"
  define ins where "ins = t_inputs tx"
  define outs where "outs = t_outputs tx"
  define wits where "wits = t_witnesses tx"
  define EI where "EI = encode (length ins)"
  define INS where "INS = concat (map serialize_input ins)"
  define EO where "EO = encode (length outs)"
  define OUTS where "OUTS = concat (map serialize_output outs)"
  define WITS where "WITS = (if wc then concat (map serialize_witness wits) else [])"
  define L where "L = le_bytes 4 (t_locktime tx)"
  define B where "B = serialize tx"
  define o1 where "o1 = 4 + length MF"
  define o2 where "o2 = o1 + length EI"
  define o3 where "o3 = o2 + length INS"
  define o4 where "o4 = o3 + length EO"
  define o5 where "o5 = o4 + length OUTS"
  define o6 where "o6 = o5 + length WITS"
  define mk where "mk = (if wc then Some (0 :: nat) else None)"
  define fl where "fl = (if wc then Some (1 :: nat) else None)"
  note defs = wc_def vn_def V_def MF_def ins_def outs_def wits_def EI_def INS_def EO_def
    OUTS_def WITS_def L_def
  have wvn: "vn < 256 ^ 4"
    unfolding vn_def by simp
  from ww have wl: "t_locktime tx < 256 ^ 4" and wni: "length ins < 2 ^ 64"
    and wno: "length outs < 2 ^ 64" and wi: "list_all input_within_widths ins"
    and wo: "list_all output_within_widths outs"
    and wws: "list_all witness_within_widths wits"
    by (simp_all add: within_widths_def ins_def outs_def wits_def)
  have lV: "length V = 4" and lL: "length L = 4"
    by (simp_all add: V_def L_def length_le_bytes)
  have B0: "B = V @ MF @ EI @ INS @ EO @ OUTS @ WITS @ L"
    unfolding B_def serialize_def defs by simp
  have v: "unpack 4 (py_slice B 0 4) = Inr vn"
  proof -
    have "unpack 4 (py_slice ([] @ le_bytes 4 vn @ (MF @ EI @ INS @ EO @ OUTS @ WITS @ L)) 0 4) =
          Inr vn"
      by (rule unpack_mid) (use wvn in simp_all)
    then show ?thesis
      by (simp add: B0 V_def)
  qed
  have mf: "parse_marker_flag B 4 = Inr (wc, mk, fl, o1)"
  proof (cases wc)
    case True
    then have "B = V @ [0x00, 0x01] @ (EI @ INS @ EO @ OUTS @ WITS @ L)"
      by (simp add: B0 MF_def)
    then have "B ! 4 = 0x00" and "B ! 5 = 0x01" and "5 < length B"
      using lV by (simp_all add: nth_append)
    with True show ?thesis
      by (simp add: parse_marker_flag_def mk_def fl_def o1_def MF_def)
  next
    case False
    with ne have "0 < length ins"
      by (simp add: wc_def ins_def)
    then have nz: "unat (EI ! 0) \<noteq> 0"
      unfolding EI_def by (rule encode_first_nonzero)
    have "0 < length EI"
      unfolding EI_def by (rule length_encode_pos)
    moreover from False have "B = V @ EI @ (INS @ EO @ OUTS @ WITS @ L)"
      by (simp add: B0 MF_def)
    ultimately have "B ! 4 = EI ! 0"
      using lV by (simp add: nth_append)
    with nz False show ?thesis
      by (simp add: parse_marker_flag_def mk_def fl_def o1_def MF_def)
  qed
  have ic: "parse_varint B o1 = Inr (length ins, o2)"
  proof -
    have "parse_varint ((V @ MF) @ encode (length ins) @ (INS @ EO @ OUTS @ WITS @ L)) o1 =
          Inr (length ins, o1 + length (encode (length ins)))"
      by (rule parse_varint_mid) (use wni lV in \<open>simp_all add: o1_def\<close>)
    then show ?thesis
      by (simp add: B0 EI_def o2_def)
  qed
  have pin: "parse_inputs B (length ins) o2 [] = Inr (map view_input ins, o3)"
  proof -
    have "parse_inputs ((V @ MF @ EI) @ concat (map serialize_input ins) @
             (EO @ OUTS @ WITS @ L)) (length ins) (length (V @ MF @ EI)) [] =
          Inr ([] @ map view_input ins,
               length (V @ MF @ EI) + length (concat (map serialize_input ins)))"
      using wi by (rule parse_inputs_all)
    then show ?thesis
      by (simp add: B0 INS_def o3_def o2_def o1_def lV add.assoc)
  qed
  have oc: "parse_varint B o3 = Inr (length outs, o4)"
  proof -
    have "parse_varint ((V @ MF @ EI @ INS) @ encode (length outs) @ (OUTS @ WITS @ L)) o3 =
          Inr (length outs, o3 + length (encode (length outs)))"
      by (rule parse_varint_mid) (use wno lV in \<open>simp_all add: o3_def o2_def o1_def\<close>)
    then show ?thesis
      by (simp add: B0 EO_def o4_def)
  qed
  have pout: "parse_outputs B (length outs) o4 [] = Inr (map view_output outs, o5)"
  proof -
    have "parse_outputs ((V @ MF @ EI @ INS @ EO) @ concat (map serialize_output outs) @
             (WITS @ L)) (length outs) (length (V @ MF @ EI @ INS @ EO)) [] =
          Inr ([] @ map view_output outs,
               length (V @ MF @ EI @ INS @ EO) + length (concat (map serialize_output outs)))"
      using wo by (rule parse_outputs_all)
    then show ?thesis
      by (simp add: B0 OUTS_def o5_def o4_def o3_def o2_def o1_def lV add.assoc)
  qed
  have lB: "length B = o6 + 4"
    by (simp add: B0 o6_def o5_def o4_def o3_def o2_def o1_def lV lL)
  have pw: "(if wc \<and> o5 < length B then parse_witnesses B (length ins) o5 []
             else Inr ([], o5)) = Inr (map (map view_item) wits, o6)"
  proof (cases wc)
    case True
    with wa have al: "length wits = length ins"
      by (simp add: witness_aligned_def wc_def wits_def ins_def)
    have "parse_witnesses ((V @ MF @ EI @ INS @ EO @ OUTS) @
             concat (map serialize_witness wits) @ L) (length wits)
             (length (V @ MF @ EI @ INS @ EO @ OUTS)) [] =
          Inr ([] @ map (map view_item) wits,
               length (V @ MF @ EI @ INS @ EO @ OUTS) +
               length (concat (map serialize_witness wits)))"
      using wws by (rule parse_witnesses_all)
    with True al have "parse_witnesses B (length ins) o5 [] = Inr (map (map view_item) wits, o6)"
      by (simp add: B0 WITS_def o6_def o5_def o4_def o3_def o2_def o1_def lV add.assoc)
    moreover have "o5 < length B"
      by (simp add: lB o6_def)
    ultimately show ?thesis
      using True by simp
  next
    case False
    with wa have "wits = []"
      by (simp add: witness_aligned_def wc_def wits_def)
    with False show ?thesis
      by (simp add: o6_def WITS_def)
  qed
  have fields: "parse_fields B =
      Inr (vn, wc, mk, fl, length ins, map view_input ins, length outs, map view_output outs,
           map (map view_item) wits, o6)"
    by (simp only: parse_fields_def v mf ic pin oc pout pw sum.case prod.case)
  have lock: "(if o6 + 4 \<le> length B then unpack 4 (py_slice B o6 (o6 + 4)) else Inr 0) =
              Inr (t_locktime tx)"
  proof -
    have "unpack 4 (py_slice ((V @ MF @ EI @ INS @ EO @ OUTS @ WITS) @
            le_bytes 4 (t_locktime tx) @ []) o6 (o6 + 4)) = Inr (t_locktime tx)"
      by (rule unpack_mid)
        (use wl lV in \<open>simp_all add: o6_def o5_def o4_def o3_def o2_def o1_def\<close>)
    then have "unpack 4 (py_slice B o6 (o6 + 4)) = Inr (t_locktime tx)"
      by (simp add: B0 L_def)
    then show ?thesis
      by (simp add: lB)
  qed
  have markers: "map_option (format_x 2) mk = (if wc then Some ''00'' else None)"
    "map_option (format_x 2) fl = (if wc then Some ''01'' else None)"
    by (simp_all add: mk_def fl_def format_x_marker_flag)
  have "parse_segwit_transaction_bytes B =
        Inr \<lparr>tx_version = format_x 8 vn, tx_is_segwit = wc,
             tx_marker = (if wc then Some ''00'' else None),
             tx_flag = (if wc then Some ''01'' else None),
             tx_input_count = length ins, tx_inputs = map view_input ins,
             tx_output_count = length outs, tx_outputs = map view_output outs,
             tx_witnesses = map (map view_item) wits,
             tx_locktime = format_x 8 (t_locktime tx), tx_total_size = length B\<rparr>"
    by (simp only: parse_segwit_transaction_bytes_def fields lock markers sum.case prod.case)
  then show ?thesis
    by (simp add: view_transaction_def B_def vn_def wc_def ins_def outs_def wits_def)
qed

lemma hex_digit_table:
  "\<forall>d \<in> set [0..<16]. hex_value (hex_digit d) = Some d \<and> \<not> is_space (hex_digit d)"
  by code_simp

lemma hex_digit_cases:
  assumes "d < 16"
  shows "hex_value (hex_digit d) = Some d \<and> \<not> is_space (hex_digit d)"
proof -
  from assms have "d \<in> set [0..<16]"
    by simp
  with hex_digit_table show ?thesis
    by blast
qed

lemma format_x_byte:
  assumes "n < 256"
  shows "format_x 2 n = [hex_digit (n div 16), hex_digit (n mod 16)]"
proof (cases "n < 16")
  case True
  then show ?thesis
    by (simp add: format_x_def hex_digit_def)
next
  case False
  with assms have "n div 16 < 16"
    by simp
  with False show ?thesis
    by (simp add: format_x_def)
qed

lemma bytes_fromhex_bytes_hex: "bytes_fromhex (bytes_hex bs) = Inr bs"
proof (induction bs)
  case Nil
  then show ?case
    by (simp add: bytes_hex_def)
next
  case (Cons b bs)
  define n where "n = unat b"
  have n: "n < 256"
    unfolding n_def using unsigned_less [of b] by simp
  then have hi: "n div 16 < 16" and lo: "n mod 16 < 16"
    by simp_all
  have f: "bytes_hex (b # bs) = hex_digit (n div 16) # hex_digit (n mod 16) # bytes_hex bs"
    using n by (simp add: bytes_hex_def format_x_byte n_def)
  have "(of_nat (16 * (n div 16) + n mod 16) :: byte) = b"
    by (simp add: n_def)
  with hex_digit_cases [OF hi] hex_digit_cases [OF lo] Cons.IH show ?case
    by (simp add: f)
qed


section \<open>The on-chain transaction of the source\<close>

text \<open>
  The serializer of the spec, applied to the signed transaction of the source, gives the
  bytes of the on-chain transaction, and the parser reads them back: the two models meet
  on the one transaction that the source quotes in full.
\<close>

lemma real_hex_bytes: "bytes_fromhex real_signed_tx_hex = Inr real_signed_tx_bytes"
  by code_simp

lemma le_bytes_4:
  "le_bytes 4 n =
     [of_nat (n mod 256), of_nat (n div 256 mod 256), of_nat (n div 256 div 256 mod 256),
      of_nat (n div 256 div 256 div 256 mod 256)]"
proof -
  have "(4 :: nat) = Suc (Suc (Suc (Suc 0)))"
    by simp
  then show ?thesis
    by (simp only: le_bytes.simps)
qed

lemma le_bytes_8:
  "le_bytes 8 n =
     [of_nat (n mod 256), of_nat (n div 256 mod 256), of_nat (n div 256 div 256 mod 256),
      of_nat (n div 256 div 256 div 256 mod 256),
      of_nat (n div 256 div 256 div 256 div 256 mod 256),
      of_nat (n div 256 div 256 div 256 div 256 div 256 mod 256),
      of_nat (n div 256 div 256 div 256 div 256 div 256 div 256 mod 256),
      of_nat (n div 256 div 256 div 256 div 256 div 256 div 256 div 256 mod 256)]"
proof -
  have "(8 :: nat) = Suc (Suc (Suc (Suc (Suc (Suc (Suc (Suc 0)))))))"
    by simp
  then show ?thesis
    by (simp only: le_bytes.simps)
qed

lemma alice_bytes: "token_bytes alice_pk = [0x02, 0x89, 0x87, 0x11, 0xe6, 0xbf, 0x63, 0xf5, 0xcb, 0xe1,
                     0xb3, 0x8c, 0x05, 0xe8, 0x9d, 0x6c, 0x39, 0x1c, 0x59, 0xe9,
                     0xf8, 0xf6, 0x95, 0xda, 0x44, 0xbf, 0x3d, 0x20, 0xca, 0x67,
                     0x4c, 0x85, 0x19]"
  by code_simp

lemma serialize_signed: "serialize signed_segwit_tx = real_signed_tx_bytes"
  by (simp add: serialize_def signed_segwit_tx_def unsigned_segwit_tx_def serialize_input_def
      serialize_output_def serialize_witness_def serialize_item_def encode_def le_bytes_4
      le_bytes_8 utxo_txid_def to_script_pub_key_def signature_def alice_bytes
      real_signed_tx_bytes_def)

text \<open>
  The sizes that \<open>create_segwit_transaction\<close> prints (lines 140 and 150): 84 bytes before
  the witness is attached, 191 bytes after.
\<close>

lemma serialize_unsigned_length: "length (serialize unsigned_segwit_tx) = 84"
  by (simp add: serialize_def unsigned_segwit_tx_def serialize_input_def serialize_output_def
      length_le_bytes encode_def utxo_txid_def to_script_pub_key_def)

lemma serialize_signed_length: "length (serialize signed_segwit_tx) = 191"
  by (simp add: serialize_signed real_signed_tx_bytes_def)

lemma signed_within_widths: "within_widths signed_segwit_tx \<and> witness_aligned signed_segwit_tx"
  by (simp add: within_widths_def witness_aligned_def signed_segwit_tx_def
      unsigned_segwit_tx_def input_within_widths_def output_within_widths_def
      witness_within_widths_def utxo_txid_def to_script_pub_key_def signature_def alice_bytes)

lemma parse_real_signed_tx:
  "parse_segwit_transaction real_signed_tx_hex = Inr (view_transaction signed_segwit_tx)"
proof -
  have "witness_carrying signed_segwit_tx \<or> t_inputs signed_segwit_tx \<noteq> []"
    by (simp add: signed_segwit_tx_def unsigned_segwit_tx_def)
  with signed_within_widths
  have "parse_segwit_transaction_bytes (serialize signed_segwit_tx) =
        Inr (view_transaction signed_segwit_tx)"
    by (simp add: parse_serialize)
  then show ?thesis
    by (simp add: parse_segwit_transaction_def real_hex_bytes serialize_signed)
qed

lemma replicate_numeral_step: "replicate (numeral v) x = x # replicate (numeral v - 1) x"
  by (simp add: numeral_eq_Suc)

lemma view_signed:
  "view_transaction signed_segwit_tx =
     \<lparr>tx_version = ''00000002'', tx_is_segwit = True, tx_marker = Some ''00'',
      tx_flag = Some ''01'', tx_input_count = 1,
      tx_inputs =
        [\<lparr>in_txid = ''1454438e6f417d710333fbab118058e2972127bdd790134ab74937fa9dddbc48'',
          in_vout = 0, in_script_sig = [], in_script_sig_len = 0,
          in_sequence = ''fffffffd''\<rparr>],
      tx_output_count = 1,
      tx_outputs =
        [\<lparr>out_value = 666, out_value_hex = ''000000000000029a'', out_script_len = 22,
          out_script_pubkey = ''0014c5b28d6bba91a2693a9b1876bcd3929323890fb2''\<rparr>],
      tx_witnesses =
        [[\<lparr>wit_len = 71,
           wit_data =
             ''3044022015098d26918b46ab36b0d1b50ee502b33d5c5b5257c76bd6d00ccb31452c25ae'' @
             ''0220256e82d4df10981f25f91e5273be39fced8fe164434616c94fa48f3549e33c0301''\<rparr>,
          \<lparr>wit_len = 33,
           wit_data = ''02898711e6bf63f5cbe1b38c05e89d6c391c59e9f8f695da44bf3d20ca674c8519''\<rparr>]],
      tx_locktime = ''00000000'', tx_total_size = 191\<rparr>"
proof -
  have total: "length (serialize signed_segwit_tx) = 191"
    by (simp add: serialize_signed real_signed_tx_bytes_def)
  show ?thesis
    unfolding view_transaction_def total
    by (simp add: signed_segwit_tx_def unsigned_segwit_tx_def view_input_def view_output_def
        view_item_def utxo_txid_def to_script_pub_key_def signature_def alice_bytes
        bytes_hex_def format_x_def hex_digit_def replicate_numeral_step)
qed

lemma parse_real_signed_tx_fields:
  "parse_segwit_transaction real_signed_tx_hex =
     Inr \<lparr>tx_version = ''00000002'', tx_is_segwit = True, tx_marker = Some ''00'',
      tx_flag = Some ''01'', tx_input_count = 1,
      tx_inputs =
        [\<lparr>in_txid = ''1454438e6f417d710333fbab118058e2972127bdd790134ab74937fa9dddbc48'',
          in_vout = 0, in_script_sig = [], in_script_sig_len = 0,
          in_sequence = ''fffffffd''\<rparr>],
      tx_output_count = 1,
      tx_outputs =
        [\<lparr>out_value = 666, out_value_hex = ''000000000000029a'', out_script_len = 22,
          out_script_pubkey = ''0014c5b28d6bba91a2693a9b1876bcd3929323890fb2''\<rparr>],
      tx_witnesses =
        [[\<lparr>wit_len = 71,
           wit_data =
             ''3044022015098d26918b46ab36b0d1b50ee502b33d5c5b5257c76bd6d00ccb31452c25ae'' @
             ''0220256e82d4df10981f25f91e5273be39fced8fe164434616c94fa48f3549e33c0301''\<rparr>,
          \<lparr>wit_len = 33,
           wit_data = ''02898711e6bf63f5cbe1b38c05e89d6c391c59e9f8f695da44bf3d20ca674c8519''\<rparr>]],
      tx_locktime = ''00000000'', tx_total_size = 191\<rparr>"
  by (simp only: parse_real_signed_tx view_signed)

section \<open>The dictionary view determines the transaction\<close>

text \<open>
  Two transactions within the declared widths that have the same dictionary view are the
  same transaction: the rendering of the parser loses nothing, so a parse result that is
  the view of a transaction identifies that transaction.
\<close>

lemma hex_to_nat_snoc:
  "hex_to_nat (s @ [c]) = 16 * hex_to_nat s + (case hex_value c of None \<Rightarrow> 0 | Some d \<Rightarrow> d)"
  by (simp add: hex_to_nat_def)

lemma hex_to_nat_hex_of_nat: "hex_to_nat (hex_of_nat n) = n"
proof (induction n rule: hex_of_nat.induct)
  case (1 n)
  show ?case
  proof (cases "n < 16")
    case True
    with hex_digit_cases [of n] show ?thesis
      by (simp add: hex_to_nat_def)
  next
    case False
    have "n mod 16 < 16"
      by simp
    with hex_digit_cases [of "n mod 16"] have "hex_value (hex_digit (n mod 16)) = Some (n mod 16)"
      by blast
    moreover from False have "hex_to_nat (hex_of_nat (n div 16)) = n div 16"
      by (rule "1.IH")
    ultimately have "hex_to_nat (hex_of_nat (n div 16) @ [hex_digit (n mod 16)]) = n"
      by (simp add: hex_to_nat_snoc)
    with False show ?thesis
      by (subst hex_of_nat.simps) simp
  qed
qed

lemma hex_to_nat_zeros: "hex_to_nat (replicate k CHR ''0'' @ s) = hex_to_nat s"
proof -
  have z: "hex_value CHR ''0'' = Some 0"
    by (simp add: hex_value_def)
  have "foldl (\<lambda>a c. 16 * a + (case hex_value c of None \<Rightarrow> 0 | Some d \<Rightarrow> d)) 0
          (replicate k CHR ''0'') = 0"
    by (induction k) (simp_all add: z)
  then show ?thesis
    by (simp add: hex_to_nat_def)
qed

lemma hex_to_nat_format_x: "hex_to_nat (format_x width n) = n"
  by (simp only: format_x_def hex_to_nat_zeros hex_to_nat_hex_of_nat)

lemma format_x_inj:
  assumes "format_x width n = format_x width m"
  shows "n = m"
proof -
  from assms have "hex_to_nat (format_x width n) = hex_to_nat (format_x width m)"
    by simp
  then show ?thesis
    by (simp add: hex_to_nat_format_x)
qed

lemma bytes_hex_inj:
  assumes "bytes_hex xs = bytes_hex ys"
  shows "xs = ys"
proof -
  from assms have "bytes_fromhex (bytes_hex xs) = bytes_fromhex (bytes_hex ys)"
    by simp
  then show ?thesis
    by (simp add: bytes_fromhex_bytes_hex)
qed

lemma view_input_inj:
  assumes "view_input i = view_input j"
  shows "i = j"
proof -
  from assms have "bytes_hex (prev_txid i) = bytes_hex (prev_txid j)"
    and "prev_index i = prev_index j"
    and "bytes_hex (unlocking_script i) = bytes_hex (unlocking_script j)"
    and "format_x 8 (sequence_number i) = format_x 8 (sequence_number j)"
    by (simp_all add: view_input_def)
  then have "prev_txid i = prev_txid j" and "prev_index i = prev_index j"
    and "unlocking_script i = unlocking_script j" and "sequence_number i = sequence_number j"
    by (simp_all add: bytes_hex_inj format_x_inj)
  then show ?thesis
    by simp
qed

lemma view_output_inj:
  assumes "view_output a = view_output b"
  shows "a = b"
proof -
  from assms have "satoshis a = satoshis b"
    and "bytes_hex (locking_script a) = bytes_hex (locking_script b)"
    by (simp_all add: view_output_def)
  then have "satoshis a = satoshis b" and "locking_script a = locking_script b"
    by (simp_all add: bytes_hex_inj)
  then show ?thesis
    by simp
qed

lemma view_item_inj:
  assumes "view_item a = view_item b"
  shows "a = b"
proof -
  from assms have "bytes_hex a = bytes_hex b"
    by (simp add: view_item_def)
  then show ?thesis
    by (rule bytes_hex_inj)
qed

lemma map_inj:
  assumes "\<And>a b. f a = f b \<Longrightarrow> a = b"
  shows "map f xs = map f ys \<Longrightarrow> xs = ys"
proof (induction xs arbitrary: ys)
  case Nil
  then show ?case by simp
next
  case (Cons x xs)
  then show ?case
    by (cases ys) (auto dest: assms)
qed

lemma version_mod:
  assumes "- (2 ^ 31) \<le> v" and "v < 2 ^ 31"
  shows "(v :: int) mod 2 ^ 32 = (if 0 \<le> v then v else v + 2 ^ 32)"
proof (cases "0 \<le> v")
  case True
  with assms(2) show ?thesis
    by simp
next
  case False
  have "v mod 2 ^ 32 = (v + 2 ^ 32) mod 2 ^ 32"
    by simp
  also from False assms(1) have "\<dots> = v + 2 ^ 32"
    by (intro mod_pos_pos_trivial) simp_all
  finally show ?thesis
    using False by simp
qed

lemma version_inj:
  assumes "- (2 ^ 31) \<le> v" "v < 2 ^ 31" "- (2 ^ 31) \<le> w" "w < 2 ^ 31"
    and "nat (v mod 2 ^ 32) = nat (w mod 2 ^ 32)"
  shows "v = (w :: int)"
proof -
  from assms(5) have e: "v mod 2 ^ 32 = w mod 2 ^ 32"
    by simp
  from assms(1,2) have a: "v mod 2 ^ 32 = (if 0 \<le> v then v else v + 2 ^ 32)"
    by (rule version_mod)
  from assms(3,4) have b: "w mod 2 ^ 32 = (if 0 \<le> w then w else w + 2 ^ 32)"
    by (rule version_mod)
  from e a b have "(if 0 \<le> v then v else v + 2 ^ 32) = (if 0 \<le> w then w else w + 2 ^ 32)"
    by (simp only:)
  with assms(1-4) show ?thesis
    by (simp split: if_splits)
qed

lemma view_transaction_inj:
  assumes "within_widths tx" and "within_widths tx'"
    and "view_transaction tx = view_transaction tx'"
  shows "tx = tx'"
proof -
  from assms(3) have v: "format_x 8 (nat (t_version tx mod 2 ^ 32)) =
                         format_x 8 (nat (t_version tx' mod 2 ^ 32))"
    and c: "witness_carrying tx = witness_carrying tx'"
    and i: "map view_input (t_inputs tx) = map view_input (t_inputs tx')"
    and out: "map view_output (t_outputs tx) = map view_output (t_outputs tx')"
    and w: "map (map view_item) (t_witnesses tx) = map (map view_item) (t_witnesses tx')"
    and l: "format_x 8 (t_locktime tx) = format_x 8 (t_locktime tx')"
    by (simp_all add: view_transaction_def)
  from v have "nat (t_version tx mod 2 ^ 32) = nat (t_version tx' mod 2 ^ 32)"
    by (rule format_x_inj)
  with assms(1,2) have "t_version tx = t_version tx'"
    by (intro version_inj) (simp_all add: within_widths_def)
  moreover have "t_inputs tx = t_inputs tx'"
    by (rule map_inj [of view_input, OF view_input_inj i])
  moreover have "t_outputs tx = t_outputs tx'"
    by (rule map_inj [of view_output, OF view_output_inj out])
  moreover have "t_witnesses tx = t_witnesses tx'"
  proof -
    have inner: "\<And>a b. map view_item a = map view_item b \<Longrightarrow> a = b"
      by (rule map_inj [of view_item, OF view_item_inj])
    show ?thesis
      by (rule map_inj [of "map view_item", OF inner w])
  qed
  moreover from l have "t_locktime tx = t_locktime tx'"
    by (rule format_x_inj)
  ultimately show ?thesis
    using c by simp
qed

section \<open>The round trip through the serializer and the parser\<close>

text \<open>
  Claim C1, as the code has it. For every witness-carrying transaction, and for every
  legacy transaction with at least one input, whose field values are within the declared
  widths and whose witness sequence is aligned with its inputs, parsing the hexadecimal
  text of the serialization gives back the transaction: the parser's dictionary is the
  dictionary view of that very transaction, with its version (as the unsigned reading of
  the four version bytes), inputs (txid, vout, unlocking script, sequence), outputs
  (value, locking script), witnesses and locktime. By \<open>view_transaction_inj\<close> no other
  transaction within the declared widths has that view. The witness is the signed
  transaction of the source.
\<close>

theorem parse_serialize_round_trip:
  assumes "within_widths tx" and "witness_aligned tx"
    and "witness_carrying tx \<or> t_inputs tx \<noteq> []"
  shows "parse_segwit_transaction (bytes_hex (serialize tx)) = Inr (view_transaction tx)"
  using assms
  by (simp add: parse_segwit_transaction_def bytes_fromhex_bytes_hex parse_serialize)

theorem parse_serialize_round_trip_witness:
  "within_widths signed_segwit_tx \<and> witness_aligned signed_segwit_tx \<and>
   (witness_carrying signed_segwit_tx \<or> t_inputs signed_segwit_tx \<noteq> []) \<and>
   parse_segwit_transaction (bytes_hex (serialize signed_segwit_tx)) =
     Inr (view_transaction signed_segwit_tx)"
proof -
  from signed_within_widths have a: "within_widths signed_segwit_tx"
    and b: "witness_aligned signed_segwit_tx"
    by simp_all
  have c: "witness_carrying signed_segwit_tx \<or> t_inputs signed_segwit_tx \<noteq> []"
    by (simp add: signed_segwit_tx_def unsigned_segwit_tx_def)
  from parse_serialize_round_trip [OF a b c] a b c show ?thesis
    by (intro conjI)
qed

text \<open>
  The claim as the spec states it fails for a legacy transaction without inputs: its
  input count is the byte 0x00, which stands where the marker of a witness-carrying
  transaction stands. The parser takes it for the marker and the output count 0x01 for
  the flag, and returns a witness-carrying transaction without outputs.
\<close>

theorem legacy_no_input_round_trip_fails:
  "within_widths legacy_no_input_tx \<and> witness_aligned legacy_no_input_tx \<and>
   parse_segwit_transaction (bytes_hex (serialize legacy_no_input_tx)) =
     Inr \<lparr>tx_version = ''00000001'', tx_is_segwit = True, tx_marker = Some ''00'',
          tx_flag = Some ''01'', tx_input_count = 0, tx_inputs = [], tx_output_count = 0,
          tx_outputs = [], tx_witnesses = [], tx_locktime = ''00000000'',
          tx_total_size = 19\<rparr> \<and>
   parse_segwit_transaction (bytes_hex (serialize legacy_no_input_tx)) \<noteq>
     Inr (view_transaction legacy_no_input_tx)"
proof -
  have a: "within_widths legacy_no_input_tx"
    by (simp add: within_widths_def legacy_no_input_tx_def output_within_widths_def)
  have b: "witness_aligned legacy_no_input_tx"
    by (simp add: witness_aligned_def legacy_no_input_tx_def)
  have c: "parse_segwit_transaction (bytes_hex (serialize legacy_no_input_tx)) =
     Inr \<lparr>tx_version = ''00000001'', tx_is_segwit = True, tx_marker = Some ''00'',
          tx_flag = Some ''01'', tx_input_count = 0, tx_inputs = [], tx_output_count = 0,
          tx_outputs = [], tx_witnesses = [], tx_locktime = ''00000000'',
          tx_total_size = 19\<rparr>"
    by code_simp
  have d: "\<not> tx_is_segwit (view_transaction legacy_no_input_tx)"
    by (simp add: view_transaction_def legacy_no_input_tx_def)
  have "parse_segwit_transaction (bytes_hex (serialize legacy_no_input_tx)) \<noteq>
     Inr (view_transaction legacy_no_input_tx)"
  proof
    assume "parse_segwit_transaction (bytes_hex (serialize legacy_no_input_tx)) =
      Inr (view_transaction legacy_no_input_tx)"
    with c have "view_transaction legacy_no_input_tx =
      \<lparr>tx_version = ''00000001'', tx_is_segwit = True, tx_marker = Some ''00'',
       tx_flag = Some ''01'', tx_input_count = 0, tx_inputs = [], tx_output_count = 0,
       tx_outputs = [], tx_witnesses = [], tx_locktime = ''00000000'',
       tx_total_size = 19\<rparr>"
      by simp
    then have "tx_is_segwit (view_transaction legacy_no_input_tx)"
      by simp
    with d show False
      by simp
  qed
  with a b c show ?thesis
    by (intro conjI)
qed

section \<open>The 2-of-3 multisig redeem script and its P2SH locking script\<close>

lemma push_prefix_small: "n \<le> 75 \<Longrightarrow> push_prefix code n = Inr [of_nat n]"
  by (simp add: push_prefix_def)

text \<open>
  Claim C8. A redeem script made of \<open>OP_2\<close>, three public keys of 33 bytes and \<open>OP_3\<close>,
  \<open>OP_CHECKMULTISIG\<close> serializes to the code of \<open>OP_2\<close>, each key behind the length byte
  33 of a direct push, and the codes of \<open>OP_3\<close> and \<open>OP_CHECKMULTISIG\<close>. Its P2SH locking
  script is the item sequence \<open>OP_HASH160\<close>, the hash160 of those redeem script bytes,
  \<open>OP_EQUAL\<close>, and with a hash of 20 bytes it serializes to the code of \<open>OP_HASH160\<close>,
  the length byte 20, the hash and the code of \<open>OP_EQUAL\<close>. The witness is the script of
  \<open>create_multisig_p2sh\<close> with the three keys of the source.
\<close>

theorem multisig_p2sh_scripts:
  assumes "length pk1 = 33" and "length pk2 = 33" and "length pk3 = 33"
    and "length (hash160 ([code OP_2] @ (33 # pk1) @ (33 # pk2) @ (33 # pk3) @
                          [code OP_3, code OP_CHECKMULTISIG])) = 20"
  shows "to_bytes code [Op OP_2, Push pk1, Push pk2, Push pk3, Op OP_3, Op OP_CHECKMULTISIG] =
           Inr ([code OP_2] @ (33 # pk1) @ (33 # pk2) @ (33 # pk3) @
                [code OP_3, code OP_CHECKMULTISIG]) \<and>
         p2sh_script_pub_key code hash160
             [Op OP_2, Push pk1, Push pk2, Push pk3, Op OP_3, Op OP_CHECKMULTISIG] =
           Inr [Op OP_HASH160,
                Push (hash160 ([code OP_2] @ (33 # pk1) @ (33 # pk2) @ (33 # pk3) @
                               [code OP_3, code OP_CHECKMULTISIG])),
                Op OP_EQUAL] \<and>
         to_bytes code
             [Op OP_HASH160,
              Push (hash160 ([code OP_2] @ (33 # pk1) @ (33 # pk2) @ (33 # pk3) @
                             [code OP_3, code OP_CHECKMULTISIG])),
              Op OP_EQUAL] =
           Inr ([code OP_HASH160] @
                (20 # hash160 ([code OP_2] @ (33 # pk1) @ (33 # pk2) @ (33 # pk3) @
                               [code OP_3, code OP_CHECKMULTISIG])) @
                [code OP_EQUAL])"
proof -
  have p: "\<And>pk. length pk = 33 \<Longrightarrow> item_to_bytes code (Push pk) = Inr (33 # pk)"
    by (simp add: item_to_bytes_def push_prefix_small)
  have o: "\<And>opc. item_to_bytes code (Op opc) = Inr [code opc]"
    by (simp add: item_to_bytes_def)
  have r: "to_bytes code [Op OP_2, Push pk1, Push pk2, Push pk3, Op OP_3, Op OP_CHECKMULTISIG] =
           Inr ([code OP_2] @ (33 # pk1) @ (33 # pk2) @ (33 # pk3) @
                [code OP_3, code OP_CHECKMULTISIG])"
    using assms(1-3) by (simp add: p o)
  have h: "\<And>d. length d = 20 \<Longrightarrow> item_to_bytes code (Push d) = Inr (20 # d)"
    by (simp add: item_to_bytes_def push_prefix_small)
  from assms(4) have l: "to_bytes code
             [Op OP_HASH160,
              Push (hash160 ([code OP_2] @ (33 # pk1) @ (33 # pk2) @ (33 # pk3) @
                             [code OP_3, code OP_CHECKMULTISIG])),
              Op OP_EQUAL] =
           Inr ([code OP_HASH160] @
                (20 # hash160 ([code OP_2] @ (33 # pk1) @ (33 # pk2) @ (33 # pk3) @
                               [code OP_3, code OP_CHECKMULTISIG])) @
                [code OP_EQUAL])"
    by (simp add: h o)
  from r l show ?thesis
    by (simp add: p2sh_script_pub_key_def)
qed

theorem multisig_p2sh_scripts_witness:
  "length (token_bytes alice_pk) = 33 \<and> length (token_bytes bob_pk) = 33 \<and>
   length (token_bytes carol_pk) = 33 \<and>
   length (take 20 ([bitcoin_code OP_2] @ (33 # token_bytes alice_pk) @ (33 # token_bytes bob_pk) @
       (33 # token_bytes carol_pk) @ [bitcoin_code OP_3, bitcoin_code OP_CHECKMULTISIG])) = 20 \<and>
   create_multisig_p2sh bitcoin_code (take 20) =
     Inr ([Op OP_HASH160, Push (take 20 ([bitcoin_code OP_2] @ (33 # token_bytes alice_pk) @ (33 # token_bytes bob_pk) @
       (33 # token_bytes carol_pk) @ [bitcoin_code OP_3, bitcoin_code OP_CHECKMULTISIG])), Op OP_EQUAL],
          [Op OP_2, Push (token_bytes alice_pk), Push (token_bytes bob_pk),
      Push (token_bytes carol_pk), Op OP_3, Op OP_CHECKMULTISIG]) \<and>
   to_bytes bitcoin_code [Op OP_2, Push (token_bytes alice_pk), Push (token_bytes bob_pk),
      Push (token_bytes carol_pk), Op OP_3, Op OP_CHECKMULTISIG] =
     Inr ([bitcoin_code OP_2] @ (33 # token_bytes alice_pk) @ (33 # token_bytes bob_pk) @
       (33 # token_bytes carol_pk) @ [bitcoin_code OP_3, bitcoin_code OP_CHECKMULTISIG]) \<and>
   to_bytes bitcoin_code [Op OP_HASH160, Push (take 20 ([bitcoin_code OP_2] @ (33 # token_bytes alice_pk) @ (33 # token_bytes bob_pk) @
       (33 # token_bytes carol_pk) @ [bitcoin_code OP_3, bitcoin_code OP_CHECKMULTISIG])), Op OP_EQUAL] =
     Inr ([bitcoin_code OP_HASH160] @ (20 # take 20 ([bitcoin_code OP_2] @ (33 # token_bytes alice_pk) @ (33 # token_bytes bob_pk) @
       (33 # token_bytes carol_pk) @ [bitcoin_code OP_3, bitcoin_code OP_CHECKMULTISIG])) @ [bitcoin_code OP_EQUAL])"
proof -
  have a: "length (token_bytes alice_pk) = 33"
    by code_simp
  have b: "length (token_bytes bob_pk) = 33"
    by code_simp
  have c: "length (token_bytes carol_pk) = 33"
    by code_simp
  have h: "length (take 20 ([bitcoin_code OP_2] @ (33 # token_bytes alice_pk) @ (33 # token_bytes bob_pk) @
       (33 # token_bytes carol_pk) @ [bitcoin_code OP_3, bitcoin_code OP_CHECKMULTISIG])) = 20"
    by (simp add: a b c)
  have t: "parse_item_list
             [''OP_2'', alice_pk, bob_pk, carol_pk, ''OP_3'', ''OP_CHECKMULTISIG''] =
           Inr [Op OP_2, Push (token_bytes alice_pk), Push (token_bytes bob_pk),
      Push (token_bytes carol_pk), Op OP_3, Op OP_CHECKMULTISIG]"
    by code_simp
  note m = multisig_p2sh_scripts [where code = bitcoin_code and ?hash160.0 = "take 20"
      and ?pk1.0 = "token_bytes alice_pk" and ?pk2.0 = "token_bytes bob_pk"
      and ?pk3.0 = "token_bytes carol_pk", OF a b c h]
  from t m have "create_multisig_p2sh bitcoin_code (take 20) =
     Inr ([Op OP_HASH160, Push (take 20 ([bitcoin_code OP_2] @ (33 # token_bytes alice_pk) @ (33 # token_bytes bob_pk) @
       (33 # token_bytes carol_pk) @ [bitcoin_code OP_3, bitcoin_code OP_CHECKMULTISIG])), Op OP_EQUAL],
          [Op OP_2, Push (token_bytes alice_pk), Push (token_bytes bob_pk),
      Push (token_bytes carol_pk), Op OP_3, Op OP_CHECKMULTISIG])"
    by (simp add: create_multisig_p2sh_def)
  with a b c h m show ?thesis
    by (intro conjI) simp_all
qed

section \<open>The Taproot digest needs the data of every input\<close>

text \<open>
  Claim C5. The Taproot key-path digest takes the amount and the scriptPubKey of every
  input of the transaction, not only of the input that is signed: with a list of amounts
  or a list of scripts shorter than the list of inputs it fails with
  \<open>IncompleteSpendData\<close> and gives no digest, and with both lists covering every input it
  gives one.
\<close>

theorem taproot_digest_needs_every_input:
  "(length amounts < length (t_inputs tx) \<or> length scripts < length (t_inputs tx) \<longrightarrow>
      taproot_digest sha256 tagged_hash tx txin_index scripts amounts sighash_type spend_type =
        Inl IncompleteSpendData) \<and>
   (length (t_inputs tx) \<le> length amounts \<and> length (t_inputs tx) \<le> length scripts \<longrightarrow>
      (\<exists>digest. taproot_digest sha256 tagged_hash tx txin_index scripts amounts sighash_type
                   spend_type = Inr digest))"
  by (simp add: taproot_digest_def)

theorem taproot_digest_needs_every_input_witness:
  "length ([] :: nat list) < length (t_inputs (simple_taproot_tx [0x51, 0x20])) \<and>
   taproot_digest (\<lambda>bs. bs) (\<lambda>tag bs. bs) (simple_taproot_tx [0x51, 0x20]) 0 [[0x51, 0x20]] []
       0x00 0x00 = Inl IncompleteSpendData \<and>
   length ([] :: byte list list) < length (t_inputs (simple_taproot_tx [0x51, 0x20])) \<and>
   taproot_digest (\<lambda>bs. bs) (\<lambda>tag bs. bs) (simple_taproot_tx [0x51, 0x20]) 0 [] [29200]
       0x00 0x00 = Inl IncompleteSpendData \<and>
   length (t_inputs (simple_taproot_tx [0x51, 0x20])) \<le> length [29200 :: nat] \<and>
   length (t_inputs (simple_taproot_tx [0x51, 0x20])) \<le> length [[0x51, 0x20 :: byte]] \<and>
   (\<exists>digest. taproot_digest (\<lambda>bs. bs) (\<lambda>tag bs. bs) (simple_taproot_tx [0x51, 0x20]) 0
                [[0x51, 0x20]] [29200] 0x00 0x00 = Inr digest)"
proof -
  have a: "length ([] :: nat list) < length (t_inputs (simple_taproot_tx [0x51, 0x20]))"
    by (simp add: simple_taproot_tx_def)
  have b: "length ([] :: byte list list) < length (t_inputs (simple_taproot_tx [0x51, 0x20]))"
    by (simp add: simple_taproot_tx_def)
  have c: "length (t_inputs (simple_taproot_tx [0x51, 0x20])) \<le> length [29200 :: nat]"
    by (simp add: simple_taproot_tx_def)
  have d: "length (t_inputs (simple_taproot_tx [0x51, 0x20])) \<le> length [[0x51, 0x20 :: byte]]"
    by (simp add: simple_taproot_tx_def)
  note t = taproot_digest_needs_every_input [where tx = "simple_taproot_tx [0x51, 0x20]"
      and ?sha256.0 = "\<lambda>bs. bs" and tagged_hash = "\<lambda>tag bs. bs" and txin_index = 0
      and sighash_type = "0x00" and spend_type = "0x00"]
  note t1 = t [where amounts = "[]" and scripts = "[[0x51, 0x20]]", THEN conjunct1, THEN mp,
      OF disjI1 [OF a]]
  note t2 = t [where amounts = "[29200]" and scripts = "[]", THEN conjunct1, THEN mp,
      OF disjI2 [OF b]]
  note t3 = t [where amounts = "[29200]" and scripts = "[[0x51, 0x20]]", THEN conjunct2,
      THEN mp, OF conjI [OF c d]]
  show ?thesis
    by (intro conjI a b c d t1 t2 t3)
qed

end
